theory Spec2Isabelle
  imports Complex_Main "HOL-Library.Log_Nat"
begin

section \<open>Remhos: the monotonicity engine of \<^verbatim>\<open>remhos.cpp\<close>\<close>

text \<open>
  The development embeds the routines of \<^verbatim>\<open>remhos.cpp\<close> that derive the dof
  topology (\<^verbatim>\<open>DofInfo\<close>), assemble the face fluxes (\<^verbatim>\<open>Assembly\<close>) and evaluate
  the right-hand side (\<^verbatim>\<open>FE_Evolution\<close>), and proves properties of them.

  The mesh, the finite element and the sparse-matrix storage belong to the MFEM
  library. They enter as data: the topology queries of a mesh as the fields of a
  record, a finalized sparse matrix as its three CSR arrays.
\<close>

subsection \<open>Errors\<close>

text \<open>\<^verbatim>\<open>mfem_error(msg)\<close> aborts the run; a routine that can reach it returns a sum.\<close>

datatype error = mfem_error string

subsection \<open>Mesh topology\<close>

text \<open>
  \<^verbatim>\<open>ElementBdrs k\<close> is the array that \<^verbatim>\<open>GetElementVertices\<close> (1-D),
  \<^verbatim>\<open>GetElementEdges\<close> (2-D) or \<^verbatim>\<open>GetElementFaces\<close> (3-D) fills for element \<open>k\<close>;
  \<^verbatim>\<open>FaceElems f\<close> is the pair \<^verbatim>\<open>(Elem1No, Elem2No)\<close> of
  \<^verbatim>\<open>GetFaceElementTransformations(f)\<close>, with \<open>-1\<close> for a missing second element.
\<close>

record mesh =
  Dimension :: nat
  GetNE :: nat
  ElementBdrs :: "nat \<Rightarrow> nat list"
  FaceElems :: "nat \<Rightarrow> int \<times> int"

subsection \<open>\<^verbatim>\<open>DofInfo::GetCommonElem\<close>\<close>

text \<open>
  The neighbour of element \<open>el\<close> across face \<open>f\<close>, as \<^verbatim>\<open>GetCommonElem\<close> computes it:
  \<^verbatim>\<open>Trans->Elem1No != el ? Trans->Elem1No : Trans->Elem2No\<close>.
\<close>

definition NbrAcross :: "mesh \<Rightarrow> int \<Rightarrow> nat \<Rightarrow> int" where
  "NbrAcross m el f = (case FaceElems m f of (e1, e2) \<Rightarrow> if e1 \<noteq> el then e1 else e2)"

definition NbrList :: "mesh \<Rightarrow> nat \<Rightarrow> int \<Rightarrow> int list" where
  "NbrList m nb el =
     map (\<lambda>i. NbrAcross m el (ElementBdrs m (nat el) ! i)) [0..<nb]"

text \<open>
  The double loop. The pair \<^verbatim>\<open>(found, CmnNbr)\<close> is one option value: \<^verbatim>\<open>CmnNbr\<close> is
  uninitialised, and never read, while \<^verbatim>\<open>found\<close> is false.
\<close>

fun common_inner :: "int \<Rightarrow> int \<Rightarrow> int list \<Rightarrow> int option \<Rightarrow> error + int option" where
  "common_inner el n1 [] st = Inr st"
| "common_inner el n1 (n2 # rest) st =
     (if n2 < 0 then common_inner el n1 rest st
      else if n1 = n2 \<and> n1 \<noteq> el then
        (case st of
           None \<Rightarrow> common_inner el n1 rest (Some n1)
         | Some c \<Rightarrow> Inl (mfem_error ''Found multiple common neighbor elements.''))
      else common_inner el n1 rest st)"

fun common_outer :: "int \<Rightarrow> int list \<Rightarrow> int list \<Rightarrow> int option \<Rightarrow> error + int option" where
  "common_outer el [] N2 st = Inr st"
| "common_outer el (n1 # rest) N2 st =
     (if n1 < 0 then common_outer el rest N2 st
      else (case common_inner el n1 N2 st of
              Inl e \<Rightarrow> Inl e
            | Inr st' \<Rightarrow> common_outer el rest N2 st'))"

definition GetCommonElem :: "mesh \<Rightarrow> nat \<Rightarrow> int \<Rightarrow> int \<Rightarrow> int \<Rightarrow> error + int" where
  "GetCommonElem m nb el el1 el2 =
     (if min el1 el2 < 0 then Inr (- 1)
      else (case common_outer el (NbrList m nb el1) (NbrList m nb el2) None of
              Inl e \<Rightarrow> Inl e
            | Inr None \<Rightarrow> Inr (- 1)
            | Inr (Some c) \<Rightarrow> Inr c))"

text \<open>
  The matches of the double loop in the order it meets them: one entry for every pair
  of slots \<open>(i, j)\<close> whose neighbours exist, agree and differ from \<open>el\<close>.
\<close>

definition common_matches :: "int \<Rightarrow> int list \<Rightarrow> int list \<Rightarrow> int list" where
  "common_matches el N1 N2 =
     concat (map (\<lambda>n1. if n1 < 0 then []
                        else filter (\<lambda>n2. \<not> n2 < 0 \<and> n1 = n2 \<and> n1 \<noteq> el) N2) N1)"

fun scan_matches :: "int option \<Rightarrow> int list \<Rightarrow> error + int option" where
  "scan_matches st [] = Inr st"
| "scan_matches None (c # cs) = scan_matches (Some c) cs"
| "scan_matches (Some c') (c # cs) =
     Inl (mfem_error ''Found multiple common neighbor elements.'')"

text \<open>A small two-dimensional mesh for the concrete checks: a row of three quads
  \<open>0 | 1 | 2\<close>; faces 0..9, of which 1 lies between elements 0 and 1, and 5 between
  1 and 2.\<close>

definition row3 :: mesh where
  "row3 = \<lparr> Dimension = 2, GetNE = 3,
      ElementBdrs = (\<lambda>k. if k = 0 then [0, 1, 2, 3] else if k = 1 then [4, 5, 6, 1]
                          else [7, 8, 9, 5]),
      FaceElems = (\<lambda>f. if f = 1 then (0, 1) else if f = 5 then (1, 2)
                        else if f \<in> {0, 2, 3} then (0, - 1)
                        else if f \<in> {4, 6} then (1, - 1) else (2, - 1)) \<rparr>"

subsection \<open>\<^verbatim>\<open>DofInfo::FillNeighborDofs\<close>\<close>

text \<open>
  What \<^verbatim>\<open>DofInfo\<close> reads from the first finite element of the space:
  \<^verbatim>\<open>GetDof()\<close>, \<^verbatim>\<open>GetOrder()\<close> and the table that \<^verbatim>\<open>ExtractBdrDofs\<close> fills, with
  \<^verbatim>\<open>numDofs = BdrDofs.Height()\<close> and \<^verbatim>\<open>numBdrs = BdrDofs.Width()\<close>.
  \<^verbatim>\<open>BdrDofs fe j i\<close> is the entry \<^verbatim>\<open>BdrDofs(j,i)\<close>.
\<close>

record felem =
  GetDof :: nat
  GetOrder :: nat
  numDofs :: nat
  numBdrs :: nat
  BdrDofs :: "nat \<Rightarrow> nat \<Rightarrow> nat"

text \<open>The neighbour across a face as \<^verbatim>\<open>FillNeighborDofs\<close> and \<^verbatim>\<open>GetVertexBoundsMap\<close>
  compute it: \<^verbatim>\<open>Trans->Elem1No == k ? Trans->Elem2No : Trans->Elem1No\<close>.\<close>

definition Nbr :: "mesh \<Rightarrow> nat \<Rightarrow> nat \<Rightarrow> int" where
  "Nbr m k f = (case FaceElems m f of (e1, e2) \<Rightarrow> if e1 = int k then e2 else e1)"

text \<open>\<^verbatim>\<open>NbrDof(k,i,j)\<close> is the entry at \<open>(k, i, j)\<close>. \<^verbatim>\<open>SetSize\<close> leaves the entries as
  they are, so the tensor before the loops is a parameter.\<close>

type_synonym itensor = "nat \<times> nat \<times> nat \<Rightarrow> int"

text \<open>The search \<^verbatim>\<open>for (ind = 0; ind < numBdrs; ind++) if (NbrBdrs[ind] == bdrs[i]) break;\<close>\<close>

function find_ind :: "nat list \<Rightarrow> nat \<Rightarrow> nat \<Rightarrow> nat \<Rightarrow> nat" where
  "find_ind NbrBdrs f n ind =
     (if ind < n then (if NbrBdrs ! ind = f then ind else find_ind NbrBdrs f n (Suc ind))
      else ind)"
  by pat_completeness auto
termination
  by (relation "measure (\<lambda>(NbrBdrs, f, n, ind). n - ind)") auto

declare find_ind.simps [simp del]

definition fill_1d :: "mesh \<Rightarrow> felem \<Rightarrow> nat \<Rightarrow> itensor \<Rightarrow> itensor" where
  "fill_1d m fe k T =
     (let bdrs = ElementBdrs m k; nd = int (GetDof fe) in
      fold (\<lambda>i T.
              let nbr = Nbr m k (bdrs ! i)
              in T((k, i, 0) := nbr * nd + int (BdrDofs fe 0 ((i + 1) mod 2))))
           [0..<numBdrs fe] T)"

definition fill_2d :: "mesh \<Rightarrow> felem \<Rightarrow> nat \<Rightarrow> itensor \<Rightarrow> itensor" where
  "fill_2d m fe k T =
     (let bdrs = ElementBdrs m k; nd = int (GetDof fe) in
      fold (\<lambda>i T.
              let nbr = Nbr m k (bdrs ! i) in
              fold (\<lambda>j T.
                      if 0 \<le> nbr then
                        (let NbrBdrs = ElementBdrs m (nat nbr);
                             ind = find_ind NbrBdrs (bdrs ! i) (numBdrs fe) 0
                         in T((k, i, j) :=
                                nbr * nd + int (BdrDofs fe (numDofs fe - 1 - j) ind)))
                      else T((k, i, j) := - 1))
                   [0..<numDofs fe] T)
           [0..<numBdrs fe] T)"

definition fill_3d :: "mesh \<Rightarrow> felem \<Rightarrow> nat \<Rightarrow> itensor \<Rightarrow> itensor" where
  "fill_3d m fe k T =
     (let bdrs = ElementBdrs m k; nd = int (GetDof fe); p = GetOrder fe in
      fold (\<lambda>j T.
              let T = T((k, 0, j) := Nbr m k (bdrs ! 0) * nd
                                      + int ((p + 1) * (p + 1) * p + j));
                  T = T((k, 1, j) := Nbr m k (bdrs ! 1) * nd
                                      + int ((j div (p + 1)) * (p + 1) * (p + 1)
                                             + (p + 1) * p + (j mod (p + 1))));
                  T = T((k, 2, j) := Nbr m k (bdrs ! 2) * nd + int (j * (p + 1)));
                  T = T((k, 3, j) := Nbr m k (bdrs ! 3) * nd
                                      + int ((j div (p + 1)) * (p + 1) * (p + 1)
                                             + (j mod (p + 1))));
                  T = T((k, 4, j) := Nbr m k (bdrs ! 4) * nd
                                      + int ((j + 1) * (p + 1) - 1));
                  T = T((k, 5, j) := Nbr m k (bdrs ! 5) * nd + int j)
              in T)
           [0..<numDofs fe] T)"

definition FillNeighborDofs :: "mesh \<Rightarrow> felem \<Rightarrow> itensor \<Rightarrow> itensor" where
  "FillNeighborDofs m fe T =
     fold (\<lambda>k T.
             if Dimension m = 1 then fill_1d m fe k T
             else if Dimension m = 2 then fill_2d m fe k T
             else if Dimension m = 3 then fill_3d m fe k T
             else T)
          [0..<GetNE m] T"

text \<open>A slot of element \<open>k\<close> is exterior when there is no element across its face.\<close>

definition exterior :: "mesh \<Rightarrow> nat \<Rightarrow> nat \<Rightarrow> bool" where
  "exterior m k i \<longleftrightarrow> Nbr m k (ElementBdrs m k ! i) < 0"

text \<open>The segment \<open>[0,1]\<close> cut into two elements, with vertices 0, 1, 2, and the
  linear element on a segment: two dofs, the boundary dof of slot 0 is dof 0, that of
  slot 1 is dof 1.\<close>

definition seg2 :: mesh where
  "seg2 = \<lparr> Dimension = 1, GetNE = 2,
      ElementBdrs = (\<lambda>k. if k = 0 then [0, 1] else [1, 2]),
      FaceElems = (\<lambda>f. if f = 0 then (0, - 1) else if f = 1 then (0, 1) else (1, - 1)) \<rparr>"

definition seg_p1 :: felem where
  "seg_p1 = \<lparr> GetDof = 2, GetOrder = 1, numDofs = 1, numBdrs = 2,
      BdrDofs = (\<lambda>j i. if i = 0 then 0 else 1) \<rparr>"

text \<open>One hexahedron, all six faces on the boundary, with the trilinear element:
  eight dofs, four on each face. Only the sizes enter the 3-D branch.\<close>

definition hex1 :: mesh where
  "hex1 = \<lparr> Dimension = 3, GetNE = 1,
      ElementBdrs = (\<lambda>k. [0, 1, 2, 3, 4, 5]),
      FaceElems = (\<lambda>f. (0, - 1)) \<rparr>"

definition hex_p1 :: felem where
  "hex_p1 = \<lparr> GetDof = 8, GetOrder = 1, numDofs = 4, numBdrs = 6,
      BdrDofs = (\<lambda>j i. 0) \<rparr>"

subsection \<open>Doubles\<close>

text \<open>
  A \<^verbatim>\<open>double\<close> is a real number, \<open>+\<infinity>\<close>, \<open>-\<infinity>\<close> or NaN. Every arithmetic operation
  on finite values rounds its exact result to the nearest number with a significand
  of 53 bits, ties to the even significand, as IEEE 754 binary64 does. The range of
  the exponent is not bounded: overflow to \<open>\<infinity>\<close> and the subnormal numbers are not
  modelled. There is one zero, taken as \<open>+0\<close> where its sign would matter (the
  quotient by zero). The infinities are the seeds of the running minima and maxima
  of the code, and NaN is what IEEE 754 gives for \<open>\<infinity> - \<infinity>\<close>, \<open>0 \<cdot> \<infinity>\<close>, \<open>0 / 0\<close> and
  \<open>\<infinity> / \<infinity>\<close>.

  \<open>expo r\<close> is the exponent \<open>e\<close> of a real \<open>r \<noteq> 0\<close>, with \<open>2\<^sup>e \<le> |r| < 2\<^sup>e\<^sup>+\<^sup>1\<close>: the length
  of the integer part of \<open>|r|\<close> when \<open>|r| \<ge> 1\<close>, and that of \<open>\<lceil>1 / |r|\<rceil> - 1\<close> otherwise.
  \<open>round_even y\<close> is the integer next to \<open>y\<close>, the even one of two at the same
  distance, and \<open>rnd r\<close> is \<open>r\<close> rounded to a multiple of \<open>2\<^sup>e\<^sup>-\<^sup>5\<^sup>2\<close>.
\<close>

definition expo :: "real \<Rightarrow> int" where
  "expo r = (if 1 \<le> \<bar>r\<bar> then bitlen \<lfloor>\<bar>r\<bar>\<rfloor> - 1 else - bitlen (\<lceil>1 / \<bar>r\<bar>\<rceil> - 1))"

definition round_even :: "real \<Rightarrow> int" where
  "round_even y =
     (let f = \<lfloor>y\<rfloor> in
      if y - of_int f < 1/2 then f
      else if 1/2 < y - of_int f then f + 1
      else if even f then f else f + 1)"

definition rnd :: "real \<Rightarrow> real" where
  "rnd r = (if r = 0 then 0
            else let u = 2 powi (expo r - 52) in of_int (round_even (r / u)) * u)"

datatype double = Fin real | PInf | MInf | NaN

fun dneg :: "double \<Rightarrow> double" where
  "dneg (Fin a) = Fin (- a)"
| "dneg PInf = MInf"
| "dneg MInf = PInf"
| "dneg NaN = NaN"

fun dadd :: "double \<Rightarrow> double \<Rightarrow> double" where
  "dadd (Fin a) (Fin b) = Fin (rnd (a + b))"
| "dadd NaN y = NaN"
| "dadd x NaN = NaN"
| "dadd PInf MInf = NaN"
| "dadd MInf PInf = NaN"
| "dadd PInf y = PInf"
| "dadd x PInf = PInf"
| "dadd MInf y = MInf"
| "dadd x MInf = MInf"

definition dsub :: "double \<Rightarrow> double \<Rightarrow> double" where
  "dsub x y = dadd x (dneg y)"

fun dmul :: "double \<Rightarrow> double \<Rightarrow> double" where
  "dmul (Fin a) (Fin b) = Fin (rnd (a * b))"
| "dmul NaN y = NaN"
| "dmul x NaN = NaN"
| "dmul (Fin a) PInf = (if a = 0 then NaN else if 0 < a then PInf else MInf)"
| "dmul (Fin a) MInf = (if a = 0 then NaN else if 0 < a then MInf else PInf)"
| "dmul PInf (Fin b) = (if b = 0 then NaN else if 0 < b then PInf else MInf)"
| "dmul MInf (Fin b) = (if b = 0 then NaN else if 0 < b then MInf else PInf)"
| "dmul PInf PInf = PInf"
| "dmul PInf MInf = MInf"
| "dmul MInf PInf = MInf"
| "dmul MInf MInf = PInf"

fun ddiv :: "double \<Rightarrow> double \<Rightarrow> double" where
  "ddiv (Fin a) (Fin b) =
     (if b = 0 then (if a = 0 then NaN else if 0 < a then PInf else MInf)
      else Fin (rnd (a / b)))"
| "ddiv NaN y = NaN"
| "ddiv x NaN = NaN"
| "ddiv (Fin a) PInf = Fin 0"
| "ddiv (Fin a) MInf = Fin 0"
| "ddiv PInf (Fin b) = (if 0 \<le> b then PInf else MInf)"
| "ddiv MInf (Fin b) = (if 0 \<le> b then MInf else PInf)"
| "ddiv PInf PInf = NaN"
| "ddiv PInf MInf = NaN"
| "ddiv MInf PInf = NaN"
| "ddiv MInf MInf = NaN"

text \<open>The comparisons \<^verbatim>\<open><\<close> and \<^verbatim>\<open><=\<close>: false as soon as one side is NaN.\<close>

fun dless :: "double \<Rightarrow> double \<Rightarrow> bool" where
  "dless (Fin a) (Fin b) \<longleftrightarrow> a < b"
| "dless NaN y \<longleftrightarrow> False"
| "dless x NaN \<longleftrightarrow> False"
| "dless x MInf \<longleftrightarrow> False"
| "dless PInf y \<longleftrightarrow> False"
| "dless MInf y \<longleftrightarrow> True"
| "dless x PInf \<longleftrightarrow> True"

fun dle :: "double \<Rightarrow> double \<Rightarrow> bool" where
  "dle (Fin a) (Fin b) \<longleftrightarrow> a \<le> b"
| "dle NaN y \<longleftrightarrow> False"
| "dle x NaN \<longleftrightarrow> False"
| "dle MInf y \<longleftrightarrow> True"
| "dle x PInf \<longleftrightarrow> True"
| "dle x MInf \<longleftrightarrow> False"
| "dle PInf y \<longleftrightarrow> False"

text \<open>\<^verbatim>\<open>std::max(a,b)\<close> is \<^verbatim>\<open>(a < b) ? b : a\<close> and \<^verbatim>\<open>std::min(a,b)\<close> is
  \<^verbatim>\<open>(b < a) ? b : a\<close>; \<^verbatim>\<open>fmax\<close> returns the other argument when one is NaN.\<close>

definition std_max :: "double \<Rightarrow> double \<Rightarrow> double" where
  "std_max a b = (if dless a b then b else a)"

definition std_min :: "double \<Rightarrow> double \<Rightarrow> double" where
  "std_min a b = (if dless b a then b else a)"

definition fmax :: "double \<Rightarrow> double \<Rightarrow> double" where
  "fmax a b = (if a = NaN then b else if b = NaN then a else if dless a b then b else a)"

fun dsqrt :: "double \<Rightarrow> double" where
  "dsqrt (Fin a) = (if a < 0 then NaN else Fin (rnd (sqrt a)))"
| "dsqrt PInf = PInf"
| "dsqrt MInf = NaN"
| "dsqrt NaN = NaN"

fun finite_d :: "double \<Rightarrow> bool" where
  "finite_d (Fin a) \<longleftrightarrow> True"
| "finite_d x \<longleftrightarrow> False"

text \<open>A \<^verbatim>\<open>Vector\<close> is the list of its entries.\<close>

type_synonym Vector = "double list"

subsection \<open>\<^verbatim>\<open>DofInfo::ComputeVertexBounds\<close>\<close>

text \<open>The members of \<^verbatim>\<open>DofInfo\<close> that the bounds query reads and writes. A key that
  \<^verbatim>\<open>map_for_bounds\<close> does not hold has the empty vector.\<close>

record DofInfo =
  map_for_bounds :: "nat \<Rightarrow> nat list"
  xi_min :: Vector
  xi_max :: Vector
  xe_min :: Vector
  xe_max :: Vector

text \<open>The body of the loop over \<^verbatim>\<open>map_for_bounds[dofInd]\<close>.\<close>

definition vertex_bounds_step :: "nat \<Rightarrow> nat \<Rightarrow> DofInfo \<Rightarrow> DofInfo" where
  "vertex_bounds_step dofInd e dofs =
     (let dofs = dofs\<lparr>xi_max := (xi_max dofs)
                   [dofInd := std_max (xi_max dofs ! dofInd) (xe_max dofs ! e)]\<rparr>;
          dofs = dofs\<lparr>xi_min := (xi_min dofs)
                   [dofInd := std_min (xi_min dofs ! dofInd) (xe_min dofs ! e)]\<rparr>
      in dofs)"

definition ComputeVertexBounds :: "DofInfo \<Rightarrow> nat \<Rightarrow> DofInfo" where
  "ComputeVertexBounds dofs dofInd =
     (let dofs = dofs\<lparr>xi_min := (xi_min dofs)[dofInd := PInf]\<rparr>;
          dofs = dofs\<lparr>xi_max := (xi_max dofs)[dofInd := dneg (xi_min dofs ! dofInd)]\<rparr>
      in fold (vertex_bounds_step dofInd) (map_for_bounds dofs dofInd) dofs)"

subsection \<open>\<^verbatim>\<open>DofInfo::GetVertexBoundsMap\<close>\<close>

fun fold_err :: "('a \<Rightarrow> 's \<Rightarrow> error + 's) \<Rightarrow> 'a list \<Rightarrow> 's \<Rightarrow> error + 's" where
  "fold_err f [] s = Inr s"
| "fold_err f (x # xs) s = (case f x s of Inl e \<Rightarrow> Inl e | Inr s' \<Rightarrow> fold_err f xs s')"

fun map_err :: "('a \<Rightarrow> error + 'b) \<Rightarrow> 'a list \<Rightarrow> error + 'b list" where
  "map_err f [] = Inr []"
| "map_err f (x # xs) =
     (case f x of Inl e \<Rightarrow> Inl e
      | Inr y \<Rightarrow> (case map_err f xs of Inl e \<Rightarrow> Inl e | Inr ys \<Rightarrow> Inr (y # ys)))"

type_synonym bounds_map = "nat \<Rightarrow> nat list"

definition push_back :: "bounds_map \<Rightarrow> nat \<Rightarrow> nat \<Rightarrow> bounds_map" where
  "push_back mfb d e = mfb(d := mfb d @ [e])"

text \<open>\<^verbatim>\<open>if (nbr >= 0) { map_for_bounds[d].push_back(nbr); }\<close>\<close>

definition push_if :: "bounds_map \<Rightarrow> nat \<Rightarrow> int \<Rightarrow> bounds_map" where
  "push_if mfb d nbr = (if 0 \<le> nbr then push_back mfb d (nat nbr) else mfb)"

text \<open>The first loop of an element: the element bounds each of its own dofs.\<close>

definition bounds_own :: "felem \<Rightarrow> nat \<Rightarrow> bounds_map \<Rightarrow> bounds_map" where
  "bounds_own fe k mfb =
     fold (\<lambda>i mfb. push_back mfb (k * GetDof fe + i) k) [0..<GetDof fe] mfb"

text \<open>The second loop: the neighbour across slot \<open>i\<close> bounds the dofs on that slot.\<close>

definition bounds_faces :: "felem \<Rightarrow> nat \<Rightarrow> int list \<Rightarrow> bounds_map \<Rightarrow> bounds_map" where
  "bounds_faces fe k NbrElem mfb =
     fold (\<lambda>i mfb.
             if NbrElem ! i < 0 then mfb
             else fold (\<lambda>j mfb. push_back mfb (k * GetDof fe + BdrDofs fe j i)
                                            (nat (NbrElem ! i)))
                       [0..<numDofs fe] mfb)
          [0..<numBdrs fe] mfb"

text \<open>The four vertices of a quad: each entry \<open>(a, b, off)\<close> stands for
  \<^verbatim>\<open>nbr = GetCommonElem(k, NbrElem[a], NbrElem[b]); if (nbr >= 0) { map_for_bounds[k*nd+off].push_back(nbr); }\<close>\<close>

definition bounds_2d :: "mesh \<Rightarrow> felem \<Rightarrow> nat \<Rightarrow> int list \<Rightarrow> bounds_map \<Rightarrow> error + bounds_map" where
  "bounds_2d m fe k NbrElem mfb =
     (let nd = GetDof fe; p = GetOrder fe in
      fold_err (\<lambda>(a, b, d) mfb.
                  case GetCommonElem m (numBdrs fe) (int k) (NbrElem ! a) (NbrElem ! b) of
                    Inl e \<Rightarrow> Inl e
                  | Inr nbr \<Rightarrow> Inr (push_if mfb d nbr))
               [(3, 0, k * nd), (0, 1, k * nd + p), (1, 2, (k + 1) * nd - 1),
                (2, 3, k * nd + p * (p + 1))] mfb)"

text \<open>The twelve edges of a hex: the pairs of faces whose common neighbour is
  \<^verbatim>\<open>EdgeNbrs[0..11]\<close>, and the offsets of the dofs on each edge.\<close>

definition edge_faces :: "(nat \<times> nat) list" where
  "edge_faces = [(0, 1), (0, 2), (0, 3), (0, 4), (5, 1), (5, 2), (5, 3), (5, 4),
                 (4, 1), (1, 2), (2, 3), (3, 4)]"

definition edge_offsets :: "nat \<Rightarrow> nat \<Rightarrow> nat list" where
  "edge_offsets p j =
     [j,
      (j + 1) * (p + 1) - 1,
      p * (p + 1) + j,
      j * (p + 1),
      (p + 1) * (p + 1) * p + j,
      (p + 1) * (p + 1) * p + (j + 1) * (p + 1) - 1,
      (p + 1) * (p + 1) * p + p * (p + 1) + j,
      (p + 1) * (p + 1) * p + j * (p + 1),
      j * (p + 1) * (p + 1),
      p + j * (p + 1) * (p + 1),
      (j + 1) * (p + 1) * (p + 1) - 1,
      p * (p + 1) + j * (p + 1) * (p + 1)]"

text \<open>The eight vertices of a hex: \<open>(f, a, b, off)\<close> stands for
  \<^verbatim>\<open>nbr = GetCommonElem(NbrElem[f], EdgeNbrs[a], EdgeNbrs[b]); if (nbr >= 0) { map_for_bounds[k*nd+off].push_back(nbr); }\<close>\<close>

definition vertex_edges :: "nat \<Rightarrow> (nat \<times> nat \<times> nat \<times> nat) list" where
  "vertex_edges p =
     [(0, 0, 3, 0),
      (0, 0, 1, p),
      (0, 2, 3, p * (p + 1)),
      (0, 1, 2, (p + 1) * (p + 1) - 1),
      (5, 4, 7, (p + 1) * (p + 1) * p),
      (5, 4, 5, (p + 1) * (p + 1) * p + p),
      (5, 6, 7, (p + 1) * (p + 1) * p + (p + 1) * p),
      (5, 5, 6, (p + 1) * (p + 1) * (p + 1) - 1)]"

definition bounds_edges :: "felem \<Rightarrow> nat \<Rightarrow> int list \<Rightarrow> bounds_map \<Rightarrow> bounds_map" where
  "bounds_edges fe k EdgeNbrs mfb =
     (let nd = GetDof fe; p = GetOrder fe in
      fold (\<lambda>j mfb.
              fold (\<lambda>(nbr, off) mfb. push_if mfb (k * nd + off) nbr)
                   (zip EdgeNbrs (edge_offsets p j)) mfb)
           [0..<p + 1] mfb)"

definition bounds_vertices ::
  "mesh \<Rightarrow> felem \<Rightarrow> nat \<Rightarrow> int list \<Rightarrow> int list \<Rightarrow> bounds_map \<Rightarrow> error + bounds_map" where
  "bounds_vertices m fe k NbrElem EdgeNbrs mfb =
     (let nd = GetDof fe; p = GetOrder fe in
      fold_err (\<lambda>(f, a, b, off) mfb.
                  case GetCommonElem m (numBdrs fe) (NbrElem ! f)
                         (EdgeNbrs ! a) (EdgeNbrs ! b) of
                    Inl e \<Rightarrow> Inl e
                  | Inr nbr \<Rightarrow> Inr (push_if mfb (k * nd + off) nbr))
               (vertex_edges p) mfb)"

definition bounds_3d :: "mesh \<Rightarrow> felem \<Rightarrow> nat \<Rightarrow> int list \<Rightarrow> bounds_map \<Rightarrow> error + bounds_map" where
  "bounds_3d m fe k NbrElem mfb =
     (case map_err (\<lambda>(a, b). GetCommonElem m (numBdrs fe) (int k) (NbrElem ! a) (NbrElem ! b))
                   edge_faces of
        Inl e \<Rightarrow> Inl e
      | Inr EdgeNbrs \<Rightarrow>
          bounds_vertices m fe k NbrElem EdgeNbrs (bounds_edges fe k EdgeNbrs mfb))"

definition bounds_elem :: "mesh \<Rightarrow> felem \<Rightarrow> nat \<Rightarrow> bounds_map \<Rightarrow> error + bounds_map" where
  "bounds_elem m fe k mfb =
     (let mfb = bounds_own fe k mfb;
          bdrs = ElementBdrs m k;
          NbrElem = map (\<lambda>i. Nbr m k (bdrs ! i)) [0..<numBdrs fe];
          mfb = bounds_faces fe k NbrElem mfb
      in if Dimension m = 2 then bounds_2d m fe k NbrElem mfb
         else if Dimension m = 3 then bounds_3d m fe k NbrElem mfb
         else Inr mfb)"

definition GetVertexBoundsMap :: "mesh \<Rightarrow> felem \<Rightarrow> bounds_map \<Rightarrow> error + bounds_map" where
  "GetVertexBoundsMap m fe mfb = fold_err (bounds_elem m fe) [0..<GetNE m] mfb"

text \<open>One bounds map extends another when it keeps every contributor.\<close>

definition grows :: "bounds_map \<Rightarrow> bounds_map \<Rightarrow> bool" where
  "grows mfb mfb' \<longleftrightarrow> (\<forall>d. set (mfb d) \<subseteq> set (mfb' d))"

text \<open>The bounds map of the two-element segment, and element bounds for it.\<close>

definition seg2_bounds :: bounds_map where
  "seg2_bounds = (\<lambda>d. if d = 0 then [0] else if d = 1 then [0, 1]
                       else if d = 2 then [1, 0] else if d = 3 then [1] else [])"

definition seg2_dofs :: DofInfo where
  "seg2_dofs = \<lparr> map_for_bounds = seg2_bounds,
      xi_min = [Fin 0, Fin 0, Fin 0, Fin 0], xi_max = [Fin 0, Fin 0, Fin 0, Fin 0],
      xe_min = [Fin 1, Fin 2], xe_max = [Fin 3, Fin 5] \<rparr>"

subsection \<open>\<^verbatim>\<open>FE_Evolution::ComputeFCTSolution\<close>\<close>

text \<open>The constant \<^verbatim>\<open>eps = 1.E-15\<close>: the double next to \<open>10\<^sup>-\<^sup>1\<^sup>5\<close>,
  \<^verbatim>\<open>0x1.203af9ee75616p-50\<close>.\<close>

definition eps :: real where
  "eps = 2535301200456459 / 2 ^ 101"

text \<open>
  The first loop over the dofs of element \<open>k\<close>: refresh the bounds of the dof, clip the
  high-order forward-Euler value, turn the correction into a flux, and add it to
  \<^verbatim>\<open>sumPos\<close> or \<^verbatim>\<open>sumNeg\<close>.
\<close>

definition fct_clip_step ::
  "Vector \<Rightarrow> double \<Rightarrow> Vector \<Rightarrow> Vector \<Rightarrow> Vector \<Rightarrow> nat \<Rightarrow> nat \<Rightarrow> nat \<Rightarrow>
   DofInfo \<times> Vector \<times> Vector \<times> double \<times> double \<Rightarrow>
   DofInfo \<times> Vector \<times> Vector \<times> double \<times> double" where
  "fct_clip_step lumpedM dt x yH yL k nd j st =
     (case st of (dofs, uClipped, fClipped, sumPos, sumNeg) \<Rightarrow>
      let dofInd = k * nd + j;
          dofs = ComputeVertexBounds dofs dofInd;
          uClipped = uClipped[j := std_min (xi_max dofs ! dofInd)
                                     (std_max (dadd (x ! dofInd) (dmul dt (yH ! dofInd)))
                                              (xi_min dofs ! dofInd))];
          fClipped = fClipped[j := dmul (ddiv (lumpedM ! dofInd) dt)
                                     (dsub (uClipped ! j)
                                           (dadd (x ! dofInd) (dmul dt (yL ! dofInd))))];
          sumPos = dadd sumPos (std_max (fClipped ! j) (Fin 0));
          sumNeg = dadd sumNeg (std_min (fClipped ! j) (Fin 0))
      in (dofs, uClipped, fClipped, sumPos, sumNeg))"

text \<open>
  The second loop: rescale the fluxes of the larger sign, and set \<open>y\<close>.
  \<^verbatim>\<open>a > b\<close> is \<open>dless b a\<close>, and \<^verbatim>\<open>- sumNeg / sumPos\<close> is \<open>(- sumNeg) / sumPos\<close>.
\<close>

definition fct_scale_step ::
  "Vector \<Rightarrow> Vector \<Rightarrow> nat \<Rightarrow> nat \<Rightarrow> double \<Rightarrow> double \<Rightarrow> nat \<Rightarrow>
   Vector \<times> Vector \<Rightarrow> Vector \<times> Vector" where
  "fct_scale_step lumpedM yL k nd sumPos sumNeg j st =
     (case st of (fClipped, y) \<Rightarrow>
      let fClipped =
            (if dless (Fin eps) (dadd sumPos sumNeg) \<and> dless (Fin eps) (fClipped ! j)
             then fClipped[j := dmul (fClipped ! j) (ddiv (dneg sumNeg) sumPos)]
             else fClipped);
          fClipped =
            (if dless (dadd sumPos sumNeg) (Fin (- eps)) \<and> dless (fClipped ! j) (Fin (- eps))
             then fClipped[j := dmul (fClipped ! j) (ddiv (dneg sumPos) sumNeg)]
             else fClipped);
          dofInd = k * nd + j;
          y = y[dofInd := dadd (yL ! dofInd) (ddiv (fClipped ! j) (lumpedM ! dofInd))]
      in (fClipped, y))"

text \<open>The body of the loop over the elements, with its local variables: the result
  is \<open>(dofs, y, fClipped, sumPos, sumNeg)\<close> at the end of the body.\<close>

definition fct_elem_locals ::
  "Vector \<Rightarrow> double \<Rightarrow> Vector \<Rightarrow> Vector \<Rightarrow> Vector \<Rightarrow> nat \<Rightarrow> nat \<Rightarrow>
   DofInfo \<times> Vector \<Rightarrow> DofInfo \<times> Vector \<times> Vector \<times> double \<times> double" where
  "fct_elem_locals lumpedM dt x yH yL nd k st =
     (case st of (dofs, y) \<Rightarrow>
      case fold (fct_clip_step lumpedM dt x yH yL k nd) [0..<nd]
             (dofs, replicate nd (Fin 0), replicate nd (Fin 0), Fin 0, Fin 0) of
        (dofs, uClipped, fClipped, sumPos, sumNeg) \<Rightarrow>
      case fold (fct_scale_step lumpedM yL k nd sumPos sumNeg) [0..<nd] (fClipped, y) of
        (fClipped, y) \<Rightarrow> (dofs, y, fClipped, sumPos, sumNeg))"

definition fct_elem ::
  "Vector \<Rightarrow> double \<Rightarrow> Vector \<Rightarrow> Vector \<Rightarrow> Vector \<Rightarrow> nat \<Rightarrow> nat \<Rightarrow>
   DofInfo \<times> Vector \<Rightarrow> DofInfo \<times> Vector" where
  "fct_elem lumpedM dt x yH yL nd k st =
     (case fct_elem_locals lumpedM dt x yH yL nd k st of
        (dofs, y, fClipped, sumPos, sumNeg) \<Rightarrow> (dofs, y))"

text \<open>\<^verbatim>\<open>ComputeFCTSolution(x, yH, yL, y)\<close> on a mesh of \<open>ne\<close> elements with \<open>nd\<close> dofs
  each; it returns the updated \<^verbatim>\<open>dofs\<close> and \<open>y\<close>.\<close>

definition ComputeFCTSolution ::
  "Vector \<Rightarrow> double \<Rightarrow> nat \<Rightarrow> nat \<Rightarrow> Vector \<Rightarrow> Vector \<Rightarrow> Vector \<Rightarrow>
   DofInfo \<times> Vector \<Rightarrow> DofInfo \<times> Vector" where
  "ComputeFCTSolution lumpedM dt ne nd x yH yL st =
     fold (fct_elem lumpedM dt x yH yL nd) [0..<ne] st"

text \<open>
  The rescaling of one flux, on reals: what the two \<^verbatim>\<open>if\<close> statements of the second
  loop do to \<^verbatim>\<open>fClipped(j)\<close> when all values are finite.
\<close>

definition scale_flux :: "real \<Rightarrow> real \<Rightarrow> real \<Rightarrow> real" where
  "scale_flux sp sn f =
     (if eps < sp + sn \<and> eps < f then f * (- sn / sp)
      else if sp + sn < - eps \<and> f < - eps then f * (- sp / sn)
      else f)"

text \<open>The value of a finite double.\<close>

fun val :: "double \<Rightarrow> real" where
  "val (Fin a) = a"
| "val x = 0"

text \<open>
  The quantities of the first loop of \<^verbatim>\<open>ComputeFCTSolution\<close> on reals, for the dof \<open>d\<close>
  and the time step \<open>t\<close>: the bounds, the low-order and high-order forward-Euler
  values, the clipped value and the flux.
\<close>

definition bound_lo :: "DofInfo \<Rightarrow> nat \<Rightarrow> real" where
  "bound_lo D d = Min ((\<lambda>e. val (xe_min D ! e)) ` set (map_for_bounds D d))"

definition bound_hi :: "DofInfo \<Rightarrow> nat \<Rightarrow> real" where
  "bound_hi D d = Max ((\<lambda>e. val (xe_max D ! e)) ` set (map_for_bounds D d))"

definition euler :: "real \<Rightarrow> Vector \<Rightarrow> Vector \<Rightarrow> nat \<Rightarrow> real" where
  "euler t x y d = val (x ! d) + t * val (y ! d)"

definition clipped :: "DofInfo \<Rightarrow> real \<Rightarrow> Vector \<Rightarrow> Vector \<Rightarrow> nat \<Rightarrow> real" where
  "clipped D t x yH d = min (bound_hi D d) (max (euler t x yH d) (bound_lo D d))"

definition flux :: "DofInfo \<Rightarrow> Vector \<Rightarrow> real \<Rightarrow> Vector \<Rightarrow> Vector \<Rightarrow> Vector \<Rightarrow> nat \<Rightarrow> real" where
  "flux D lumpedM t x yH yL d =
     val (lumpedM ! d) / t * (clipped D t x yH d - euler t x yL d)"

text \<open>
  The data of element \<open>k\<close> are finite: the time step is a positive real; at each dof
  of the element the vectors are long enough and hold finite values; each such dof
  has a contributor in \<^verbatim>\<open>map_for_bounds\<close>, and the element bounds of its contributors
  are finite.
\<close>

definition fct_finite ::
  "Vector \<Rightarrow> double \<Rightarrow> Vector \<Rightarrow> Vector \<Rightarrow> Vector \<Rightarrow> nat \<Rightarrow> nat \<Rightarrow> DofInfo \<Rightarrow> bool" where
  "fct_finite lumpedM dt x yH yL nd k D \<longleftrightarrow>
     finite_d dt \<and> 0 < val dt \<and>
     (\<forall>j<nd. let d = k * nd + j in
        d < length x \<and> d < length yH \<and> d < length yL \<and> d < length lumpedM
        \<and> d < length (xi_min D) \<and> d < length (xi_max D)
        \<and> finite_d (x ! d) \<and> finite_d (yH ! d) \<and> finite_d (yL ! d)
        \<and> finite_d (lumpedM ! d)
        \<and> map_for_bounds D d \<noteq> []
        \<and> (\<forall>e\<in>set (map_for_bounds D d).
              e < length (xe_min D) \<and> e < length (xe_max D)
              \<and> finite_d (xe_min D ! e) \<and> finite_d (xe_max D ! e)))"

text \<open>The fluxes of element \<open>k\<close> after the first loop, and their positive and
  negative sums, on reals.\<close>

definition fluxes :: "DofInfo \<Rightarrow> Vector \<Rightarrow> real \<Rightarrow> Vector \<Rightarrow> Vector \<Rightarrow> Vector \<Rightarrow> nat \<Rightarrow> nat \<Rightarrow> real list" where
  "fluxes D lumpedM t x yH yL nd k = map (\<lambda>j. flux D lumpedM t x yH yL (k * nd + j)) [0..<nd]"

definition sum_pos :: "real list \<Rightarrow> real" where
  "sum_pos fs = sum_list (map (\<lambda>f. max f 0) fs)"

definition sum_neg :: "real list \<Rightarrow> real" where
  "sum_neg fs = sum_list (map (\<lambda>f. min f 0) fs)"

text \<open>One element with two dofs, bounded by itself, for the concrete checks of the
  limiter: the element bounds are \<open>[0, 1]\<close>.\<close>

definition unit_dofs :: DofInfo where
  "unit_dofs = \<lparr> map_for_bounds = (\<lambda>d. [0]),
      xi_min = [Fin 0, Fin 0], xi_max = [Fin 0, Fin 0],
      xe_min = [Fin 0], xe_max = [Fin 1] \<rparr>"

subsection \<open>Sparse matrices and vectors\<close>

text \<open>
  A finalized \<^verbatim>\<open>SparseMatrix\<close> in CSR form: \<^verbatim>\<open>Size()\<close> rows, the row offsets \<^verbatim>\<open>GetI()\<close>,
  the column indices \<^verbatim>\<open>GetJ()\<close> and the entries \<^verbatim>\<open>GetData()\<close>. The class is MFEM's;
  \<^verbatim>\<open>Mult\<close> and \<^verbatim>\<open>Norml2\<close> below are its operations as the MFEM documentation
  defines them: the product \<open>y = A x\<close>, each row accumulated from zero in storage
  order, and the Euclidean norm.
\<close>

record SparseMatrix =
  Size :: nat
  GetI :: "nat list"
  GetJ :: "nat list"
  GetData :: Vector

definition row_dot :: "SparseMatrix \<Rightarrow> Vector \<Rightarrow> nat \<Rightarrow> double" where
  "row_dot A x i =
     fold (\<lambda>k d. dadd d (dmul (GetData A ! k) (x ! (GetJ A ! k))))
          [GetI A ! i..<GetI A ! (i + 1)] (Fin 0)"

definition Mult :: "SparseMatrix \<Rightarrow> Vector \<Rightarrow> Vector" where
  "Mult A x = map (row_dot A x) [0..<Size A]"

definition Norml2 :: "Vector \<Rightarrow> double" where
  "Norml2 v = dsqrt (fold (\<lambda>a s. dadd s (dmul a a)) v (Fin 0))"

text \<open>\<^verbatim>\<open>y -= f\<close> and \<^verbatim>\<open>y += b\<close>, entry by entry.\<close>

definition vsub :: "Vector \<Rightarrow> Vector \<Rightarrow> Vector" where
  "vsub y f = map (\<lambda>(a, b). dsub a b) (zip y f)"


subsection \<open>\<^verbatim>\<open>FE_Evolution::NeumannSolve\<close>\<close>

text \<open>The constants \<^verbatim>\<open>max_iter = 20\<close> and \<^verbatim>\<open>abs_tol = 1.e-4\<close>, the double next to
  \<open>10\<^sup>-\<^sup>4\<close>, \<^verbatim>\<open>0x1.a36e2eb1c432dp-14\<close>.\<close>

definition max_iter :: nat where
  "max_iter = 20"

definition abs_tol :: real where
  "abs_tol = 7378697629483821 / 2 ^ 66"

text \<open>The residual \<open>M x - f\<close> of an iteration, the test \<^verbatim>\<open>resid <= abs_tol\<close>, and the
  update \<^verbatim>\<open>for (i = 0; i < n; i++) { x(i) -= y(i) / lumpedM(i); }\<close> with \<open>n = f.Size()\<close>.\<close>

definition neumann_resid :: "SparseMatrix \<Rightarrow> Vector \<Rightarrow> Vector \<Rightarrow> Vector" where
  "neumann_resid M f x = vsub (Mult M x) f"

definition neumann_done :: "SparseMatrix \<Rightarrow> Vector \<Rightarrow> Vector \<Rightarrow> bool" where
  "neumann_done M f x \<longleftrightarrow> dle (Norml2 (neumann_resid M f x)) (Fin abs_tol)"

definition neumann_update :: "SparseMatrix \<Rightarrow> Vector \<Rightarrow> Vector \<Rightarrow> Vector \<Rightarrow> Vector" where
  "neumann_update M lumpedM f x =
     (let y = neumann_resid M f x in
      fold (\<lambda>i x. x[i := dsub (x ! i) (ddiv (y ! i) (lumpedM ! i))]) [0..<length f] x)"

function neumann_iter :: "SparseMatrix \<Rightarrow> Vector \<Rightarrow> Vector \<Rightarrow> nat \<Rightarrow> Vector \<Rightarrow> Vector" where
  "neumann_iter M lumpedM f iter x =
     (if iter \<le> max_iter then
        (if neumann_done M f x then x
         else neumann_iter M lumpedM f (Suc iter) (neumann_update M lumpedM f x))
      else x)"
  by pat_completeness auto
termination
  by (relation "measure (\<lambda>(M, lumpedM, f, iter, x). Suc max_iter - iter)") auto

declare neumann_iter.simps [simp del]

text \<open>\<^verbatim>\<open>NeumannSolve(f, x)\<close>: \<^verbatim>\<open>x = 0.\<close> keeps the size of \<open>x\<close>; the result is the final
  \<open>x\<close>. The routine has no other exit than its two returns.\<close>

definition NeumannSolve :: "SparseMatrix \<Rightarrow> Vector \<Rightarrow> Vector \<Rightarrow> Vector \<Rightarrow> Vector" where
  "NeumannSolve M lumpedM f x = neumann_iter M lumpedM f 1 (replicate (length x) (Fin 0))"

text \<open>The one-by-one matrices \<open>(1)\<close> and \<open>(2)\<close>.\<close>

definition mat1 :: "real \<Rightarrow> SparseMatrix" where
  "mat1 a = \<lparr> Size = 1, GetI = [0, 1], GetJ = [0], GetData = [Fin a] \<rparr>"

subsection \<open>\<^verbatim>\<open>Assembly::ComputeFluxTerms\<close>\<close>

text \<open>
  What MFEM supplies at one point of the face quadrature rule \<^verbatim>\<open>lom.irF\<close>:
  \<^verbatim>\<open>ip.weight\<close>; \<^verbatim>\<open>Trans->Face->Weight()\<close>; the coordinate \<^verbatim>\<open>eip1.x\<close> of
  \<^verbatim>\<open>Trans->Loc1.Transform(ip, eip1)\<close>, from which the 1-D normal is taken; the vector
  of \<^verbatim>\<open>CalcOrtho(Trans->Face->Jacobian(), nor)\<close> for the other dimensions; the values
  \<^verbatim>\<open>shape\<close> of \<^verbatim>\<open>el.CalcShape\<close> and the velocity \<^verbatim>\<open>vval\<close> of \<^verbatim>\<open>lom.coef->Eval\<close> on the
  side of element \<open>k\<close>.
\<close>

record qpoint =
  ip_weight :: double
  face_weight :: double
  eip1_x :: double
  ortho :: Vector
  shape :: Vector
  vval :: Vector

type_synonym dtensor = "nat \<times> nat \<times> nat \<Rightarrow> double"

text \<open>\<^verbatim>\<open>vval * nor\<close>, the inner product of two vectors.\<close>

definition dot :: "Vector \<Rightarrow> Vector \<Rightarrow> double" where
  "dot v w = fold (\<lambda>(a, b) s. dadd s (dmul a b)) (zip v w) (Fin 0)"

text \<open>
  The unit normal: \<^verbatim>\<open>nor(0) = 2.*eip1.x - 1.0\<close> in 1-D and \<^verbatim>\<open>CalcOrtho\<close> otherwise,
  \<^verbatim>\<open>nor *= -1.\<close> when element \<open>k\<close> is the second element of the face, and
  \<^verbatim>\<open>nor /= nor.Norml2()\<close>, which MFEM computes as a product with \<^verbatim>\<open>1.0/c\<close>.
\<close>

definition flux_normal :: "nat \<Rightarrow> int \<Rightarrow> nat \<Rightarrow> qpoint \<Rightarrow> Vector" where
  "flux_normal dimn Elem1No k q =
     (let nor = (if dimn = 1 then [dsub (dmul (Fin 2) (eip1_x q)) (Fin 1)] else ortho q);
          nor = (if Elem1No \<noteq> int k then map (\<lambda>a. dmul a (Fin (- 1))) nor else nor)
      in map (\<lambda>a. dmul a (ddiv (Fin 1) (Norml2 nor))) nor)"

text \<open>\<^verbatim>\<open>vn = min(0., vval * nor)\<close> for transport (\<^verbatim>\<open>exec_mode == 0\<close>), and
  \<^verbatim>\<open>vn = max(0., vval * nor); vn *= -1.0;\<close> for remap.\<close>

definition flux_vn :: "nat \<Rightarrow> double \<Rightarrow> double" where
  "flux_vn exec_mode d =
     (if exec_mode = 0 then std_min (Fin 0) d else dmul (std_max (Fin 0) d) (Fin (- 1)))"

text \<open>The loops over \<open>i\<close> and \<open>j\<close> at one quadrature point.\<close>

definition flux_point :: "nat \<Rightarrow> nat \<Rightarrow> felem \<Rightarrow> nat \<Rightarrow> nat \<Rightarrow> int \<Rightarrow> qpoint \<Rightarrow> dtensor \<Rightarrow> dtensor" where
  "flux_point exec_mode dimn fe k BdrID Elem1No q bdrInt =
     (let vn = flux_vn exec_mode (dot (vval q) (flux_normal dimn Elem1No k q)) in
      fold (\<lambda>i bdrInt.
              let aux = dmul (dmul (dmul (ip_weight q) (face_weight q))
                                   (shape q ! BdrDofs fe i BdrID)) vn
              in fold (\<lambda>j bdrInt.
                         bdrInt((k, BdrID, i * numDofs fe + j) :=
                           dsub (bdrInt (k, BdrID, i * numDofs fe + j))
                                (dmul aux (shape q ! BdrDofs fe j BdrID))))
                      [0..<numDofs fe] bdrInt)
           [0..<numDofs fe] bdrInt)"

definition ComputeFluxTerms ::
  "nat \<Rightarrow> nat \<Rightarrow> felem \<Rightarrow> nat \<Rightarrow> nat \<Rightarrow> int \<Rightarrow> qpoint list \<Rightarrow> dtensor \<Rightarrow> dtensor" where
  "ComputeFluxTerms exec_mode dimn fe k BdrID Elem1No qs bdrInt =
     fold (flux_point exec_mode dimn fe k BdrID Elem1No) qs bdrInt"

text \<open>
  The loops over the elements and their slots, in the constructor of \<^verbatim>\<open>Assembly\<close> and
  in \<^verbatim>\<open>FE_Evolution::Mult\<close>; \<open>qp k i\<close> are the quadrature points of slot \<open>i\<close> of element
  \<open>k\<close>.
\<close>

definition flux_loops ::
  "nat \<Rightarrow> mesh \<Rightarrow> felem \<Rightarrow> (nat \<Rightarrow> nat \<Rightarrow> qpoint list) \<Rightarrow> dtensor \<Rightarrow> dtensor" where
  "flux_loops exec_mode m fe qp bdrInt =
     fold (\<lambda>k bdrInt.
             fold (\<lambda>i bdrInt.
                     ComputeFluxTerms exec_mode (Dimension m) fe k i
                       (fst (FaceElems m (ElementBdrs m k ! i))) (qp k i) bdrInt)
                  [0..<numBdrs fe] bdrInt)
          [0..<GetNE m] bdrInt"

text \<open>The constructor: \<^verbatim>\<open>bdrInt = 0.\<close> when \<^verbatim>\<open>NeedBdr\<close>, and the loops in transport mode.\<close>

definition Assembly_bdrInt ::
  "bool \<Rightarrow> nat \<Rightarrow> mesh \<Rightarrow> felem \<Rightarrow> (nat \<Rightarrow> nat \<Rightarrow> qpoint list) \<Rightarrow> dtensor \<Rightarrow> dtensor" where
  "Assembly_bdrInt NeedBdr exec_mode m fe qp bdrInt =
     (let bdrInt = (if NeedBdr then (\<lambda>idx. Fin 0) else bdrInt)
      in if exec_mode = 0 \<and> NeedBdr then flux_loops exec_mode m fe qp bdrInt else bdrInt)"

text \<open>The reassembly at the start of \<^verbatim>\<open>Mult\<close> in remap mode.\<close>

definition Mult_bdrInt ::
  "bool \<Rightarrow> nat \<Rightarrow> mesh \<Rightarrow> felem \<Rightarrow> (nat \<Rightarrow> nat \<Rightarrow> qpoint list) \<Rightarrow> dtensor \<Rightarrow> dtensor" where
  "Mult_bdrInt NeedBdr exec_mode m fe qp bdrInt =
     (if exec_mode = 1 \<and> NeedBdr then flux_loops exec_mode m fe qp (\<lambda>idx. Fin 0)
      else bdrInt)"

text \<open>Every entry of a tensor is a finite double and not negative.\<close>

definition nonneg_tensor :: "dtensor \<Rightarrow> bool" where
  "nonneg_tensor T \<longleftrightarrow> (\<forall>idx. finite_d (T idx) \<and> 0 \<le> val (T idx))"

text \<open>
  The data of a quadrature point of slot \<open>BdrID\<close> are finite, and its quadrature
  weight, its face weight and the shape values at the boundary dofs of the slot are
  not negative.
\<close>

definition qpoint_ok :: "felem \<Rightarrow> nat \<Rightarrow> qpoint \<Rightarrow> bool" where
  "qpoint_ok fe BdrID q \<longleftrightarrow>
     finite_d (ip_weight q) \<and> 0 \<le> val (ip_weight q)
     \<and> finite_d (face_weight q) \<and> 0 \<le> val (face_weight q)
     \<and> finite_d (eip1_x q) \<and> list_all finite_d (ortho q) \<and> list_all finite_d (vval q)
     \<and> (\<forall>i<numDofs fe. BdrDofs fe i BdrID < length (shape q)
            \<and> finite_d (shape q ! BdrDofs fe i BdrID)
            \<and> 0 \<le> val (shape q ! BdrDofs fe i BdrID))"

text \<open>
  The face quadrature of the two-element segment with the linear Bernstein element
  and the velocity \<open>v = 1\<close>: one point of weight 1 on each vertex. At slot 0 (the left
  vertex of an element) the shape values are \<open>(1, 0)\<close>, at slot 1 they are \<open>(0, 1)\<close>.
  \<^verbatim>\<open>eip1.x\<close> is the coordinate of the vertex in the first element of the face: for
  the inner vertex seen from element 1 that is the right end of element 0.
\<close>

definition seg2_qp :: "nat \<Rightarrow> nat \<Rightarrow> qpoint list" where
  "seg2_qp k i =
     [\<lparr> ip_weight = Fin 1, face_weight = Fin 1,
        eip1_x = (if i = 0 \<and> k = 0 then Fin 0 else Fin 1),
        ortho = [],
        shape = (if i = 0 then [Fin 1, Fin 0] else [Fin 0, Fin 1]),
        vval = [Fin 1] \<rparr>]"

subsection \<open>\<^verbatim>\<open>ComputeDiscreteUpwindingMatrix\<close>\<close>





















subsection \<open>\<^verbatim>\<open>FE_Evolution::LinearFluxLumping\<close>\<close>



subsection \<open>\<^verbatim>\<open>FE_Evolution::ComputeLowOrderSolution\<close>\<close>

text \<open>\<^verbatim>\<open>enum MONOTYPE\<close>; its first value is \<^verbatim>\<open>None\<close> in the source.\<close>

datatype MONOTYPE = NoMono | DiscUpw | DiscUpw_FCT | ResDist | ResDist_FCT

text \<open>
  What the evaluation reads: the matrices \<open>K\<close> and \<^verbatim>\<open>lom.pk->SpMat()\<close> (as assembled
  when the routine runs), the lumped masses, the load \<open>b\<close>, the tensors of
  \<^verbatim>\<open>Assembly\<close> and \<^verbatim>\<open>DofInfo\<close>, the sizes, and the settings of \<^verbatim>\<open>LowOrderMethod\<close>.
\<close>

record Evolution =
  ev_K :: SparseMatrix
  ev_pk :: SparseMatrix
  ev_smap :: "nat list"
  ev_lumpedM :: Vector
  ev_b :: Vector
  ev_bdrInt :: dtensor
  ev_SubcellWeights :: dtensor
  ev_NbrDof :: itensor
  ev_fe :: felem
  ev_Sub2Ind :: "nat \<Rightarrow> nat \<Rightarrow> nat"
  ev_numSubcells :: nat
  ev_numDofsSubcell :: nat
  ev_ne :: nat
  ev_exec_mode :: nat
  MonoType :: MONOTYPE
  OptScheme :: bool





























text \<open>The number of dofs \<^verbatim>\<open>fes.GetVSize()\<close>: every element has \<^verbatim>\<open>nd\<close> of them.\<close>

definition ndofs :: "Evolution \<Rightarrow> nat" where
  "ndofs ev = ev_ne ev * GetDof (ev_fe ev)"

text \<open>
  No exterior slot carries a flux: at every boundary dof of every slot the flux
  integrals are finite, and the neighbour dof is a dof of the mesh, or it is negative
  and the flux integrals of that dof are zero (an outflow boundary).
\<close>

definition flux_closed :: "Evolution \<Rightarrow> bool" where
  "flux_closed ev \<longleftrightarrow>
     (\<forall>k<ev_ne ev. \<forall>B<numBdrs (ev_fe ev). \<forall>i<numDofs (ev_fe ev).
        BdrDofs (ev_fe ev) i B < GetDof (ev_fe ev)
        \<and> (\<forall>j<numDofs (ev_fe ev). finite_d (ev_bdrInt ev (k, B, i * numDofs (ev_fe ev) + j)))
        \<and> (0 \<le> ev_NbrDof ev (k, B, i) \<and> nat (ev_NbrDof ev (k, B, i)) < ndofs ev
           \<or> ev_NbrDof ev (k, B, i) < 0
             \<and> (\<forall>j<numDofs (ev_fe ev).
                   ev_bdrInt ev (k, B, i * numDofs (ev_fe ev) + j) = Fin 0)))"

text \<open>
  The two-element segment with its end vertices identified (vertex 0): every vertex
  lies between the two elements. Its face quadrature, with the velocity \<open>v = 1\<close>:
  each vertex is the right end of the first element of its face.
\<close>

definition seg2_periodic :: mesh where
  "seg2_periodic = \<lparr> Dimension = 1, GetNE = 2,
      ElementBdrs = (\<lambda>k. if k = 0 then [0, 1] else [1, 0]),
      FaceElems = (\<lambda>f. if f = 0 then (1, 0) else (0, 1)) \<rparr>"

definition seg2_periodic_qp :: "nat \<Rightarrow> nat \<Rightarrow> qpoint list" where
  "seg2_periodic_qp k i =
     [\<lparr> ip_weight = Fin 1, face_weight = Fin 1, eip1_x = Fin 1, ortho = [],
        shape = (if i = 0 then [Fin 1, Fin 0] else [Fin 0, Fin 1]),
        vval = [Fin 1] \<rparr>]"

text \<open>
  The convection matrix of the linear Bernstein element on two elements of length
  \<open>1/2\<close> with the velocity \<open>v = 1\<close>, \<open>K\<^sub>i\<^sub>j = - \<integral> v \<phi>\<^sub>j' \<phi>\<^sub>i\<close>: the block
  \<open>((1/2, -1/2), (1/2, -1/2))\<close> for each element. Its offset map, the matrix that
  \<^verbatim>\<open>ComputeDiscreteUpwindingMatrix\<close> makes of it, and the lumped masses \<open>1/4\<close>.
\<close>

definition Kseg :: SparseMatrix where
  "Kseg = \<lparr> Size = 4, GetI = [0, 2, 4, 6, 8], GetJ = [0, 1, 0, 1, 2, 3, 2, 3],
            GetData = [Fin (1/2), Fin (- 1/2), Fin (1/2), Fin (- 1/2),
                       Fin (1/2), Fin (- 1/2), Fin (1/2), Fin (- 1/2)] \<rparr>"

definition smap_seg :: "nat list" where
  "smap_seg = [0, 2, 1, 3, 4, 6, 5, 7]"


text \<open>
  The transport problem (\<^verbatim>\<open>exec_mode = 0\<close>) on a two-element segment \<open>m\<close> with the face
  quadrature \<open>qp\<close>, zero inflow, and the tensors that the constructors of \<^verbatim>\<open>DofInfo\<close>
  and \<^verbatim>\<open>Assembly\<close> compute.
\<close>

definition seg_problem ::
  "mesh \<Rightarrow> (nat \<Rightarrow> nat \<Rightarrow> qpoint list) \<Rightarrow> nat \<Rightarrow> MONOTYPE \<Rightarrow> bool \<Rightarrow> Evolution" where
  "seg_problem m qp mode mt opt =
     \<lparr> ev_K = Kseg, ev_pk = Kseg, ev_smap = smap_seg,
       ev_lumpedM = replicate 4 (Fin (1/4)), ev_b = replicate 4 (Fin 0),
       ev_bdrInt = Assembly_bdrInt True 0 m seg_p1 qp (\<lambda>idx. Fin 0),
       ev_SubcellWeights = (\<lambda>idx. Fin 0),
       ev_NbrDof = FillNeighborDofs m seg_p1 (\<lambda>idx. 0),
       ev_fe = seg_p1, ev_Sub2Ind = (\<lambda>m j. m + j),
       ev_numSubcells = 1, ev_numDofsSubcell = 2, ev_ne = 2, ev_exec_mode = mode,
       MonoType = mt, OptScheme = opt \<rparr>"




subsection \<open>Properties of \<^verbatim>\<open>GetCommonElem\<close>\<close>

lemma common_inner_scan:
  "common_inner el n1 N2 st =
     scan_matches st (filter (\<lambda>n2. \<not> n2 < 0 \<and> n1 = n2 \<and> n1 \<noteq> el) N2)"
  by (induction N2 arbitrary: st) (auto split: option.splits)

lemma scan_matches_append:
  "scan_matches st (xs @ ys) =
     (case scan_matches st xs of Inl e \<Rightarrow> Inl e | Inr st' \<Rightarrow> scan_matches st' ys)"
  by (induction st xs rule: scan_matches.induct) auto

lemma common_outer_scan:
  "common_outer el N1 N2 st = scan_matches st (common_matches el N1 N2)"
  by (induction N1 arbitrary: st)
     (auto simp: common_matches_def common_inner_scan scan_matches_append split: sum.splits)

lemma scan_matches_None:
  "scan_matches None cs =
     (case cs of [] \<Rightarrow> Inr None
      | [c] \<Rightarrow> Inr (Some c)
      | c # c' # r \<Rightarrow> Inl (mfem_error ''Found multiple common neighbor elements.''))"
  by (auto split: list.splits)

lemma set_common_matches:
  "c \<in> set (common_matches el N1 N2) \<longleftrightarrow>
     0 \<le> c \<and> c \<noteq> el \<and> c \<in> set N1 \<and> c \<in> set N2"
  by (auto simp: common_matches_def)

lemma common_matches_empty_iff:
  "common_matches el N1 N2 = [] \<longleftrightarrow>
     \<not> (\<exists>c. 0 \<le> c \<and> c \<noteq> el \<and> c \<in> set N1 \<and> c \<in> set N2)"
proof -
  have "common_matches el N1 N2 = [] \<longleftrightarrow> set (common_matches el N1 N2) = {}"
    by simp
  also have "\<dots> \<longleftrightarrow> \<not> (\<exists>c. c \<in> set (common_matches el N1 N2))"
    by auto
  finally show ?thesis
    by (simp only: set_common_matches)
qed

text \<open>
  Claim C8. \<^verbatim>\<open>GetCommonElem(el, el1, el2)\<close> returns \<open>-1\<close> when \<open>el1 < 0\<close> or
  \<open>el2 < 0\<close>, and when no element other than \<open>el\<close> is a face neighbour of both; it
  returns the common neighbour when the double loop over the slots of \<open>el1\<close> and
  \<open>el2\<close> meets exactly one match; and it stops in \<^verbatim>\<open>mfem_error\<close> as soon as the
  loop meets a second match, so two or more matches are a fatal error and not a
  result.
\<close>

theorem GetCommonElem_cases:
  "(el1 < 0 \<or> el2 < 0 \<longrightarrow> GetCommonElem m nb el el1 el2 = Inr (- 1))
   \<and> (0 \<le> el1 \<and> 0 \<le> el2 \<longrightarrow>
        (let N1 = NbrList m nb el1; N2 = NbrList m nb el2;
             ms = common_matches el N1 N2
         in (\<not> (\<exists>c. 0 \<le> c \<and> c \<noteq> el \<and> c \<in> set N1 \<and> c \<in> set N2)
               \<longrightarrow> GetCommonElem m nb el el1 el2 = Inr (- 1))
          \<and> (\<forall>c. ms = [c] \<longrightarrow>
                 GetCommonElem m nb el el1 el2 = Inr c
                 \<and> 0 \<le> c \<and> c \<noteq> el \<and> c \<in> set N1 \<and> c \<in> set N2)
          \<and> (2 \<le> length ms \<longrightarrow>
                 GetCommonElem m nb el el1 el2 =
                   Inl (mfem_error ''Found multiple common neighbor elements.''))))"
proof -
  have neg: "el1 < 0 \<or> el2 < 0 \<Longrightarrow> GetCommonElem m nb el el1 el2 = Inr (- 1)"
    by (auto simp: GetCommonElem_def min_def)
  have pos: "GetCommonElem m nb el el1 el2 =
      (case common_matches el (NbrList m nb el1) (NbrList m nb el2) of
         [] \<Rightarrow> Inr (- 1)
       | [c] \<Rightarrow> Inr c
       | c # c' # r \<Rightarrow> Inl (mfem_error ''Found multiple common neighbor elements.''))"
    if "0 \<le> el1" "0 \<le> el2"
    using that
    by (simp add: GetCommonElem_def min_def common_outer_scan scan_matches_None
             split: list.splits)
  have mem: "0 \<le> c \<and> c \<noteq> el \<and> c \<in> set N1 \<and> c \<in> set N2"
    if "common_matches el N1 N2 = [c]" for c N1 N2
  proof -
    have "c \<in> set (common_matches el N1 N2)" using that by simp
    then show ?thesis using set_common_matches[of c el N1 N2] by blast
  qed
  have none: "GetCommonElem m nb el el1 el2 = Inr (- 1)"
    if "0 \<le> el1" "0 \<le> el2"
       "\<not> (\<exists>c. 0 \<le> c \<and> c \<noteq> el \<and> c \<in> set (NbrList m nb el1)
                 \<and> c \<in> set (NbrList m nb el2))"
  proof -
    have "common_matches el (NbrList m nb el1) (NbrList m nb el2) = []"
      using that(3) common_matches_empty_iff[of el "NbrList m nb el1" "NbrList m nb el2"]
      by blast
    then show ?thesis using that(1,2) by (simp add: pos)
  qed
  have two: "2 \<le> length ms \<Longrightarrow> \<exists>c c' r. ms = c # c' # r" for ms :: "int list"
    by (cases ms; cases "tl ms") auto
  show ?thesis
    unfolding Let_def
  proof (intro conjI impI allI)
    assume "el1 < 0 \<or> el2 < 0"
    then show "GetCommonElem m nb el el1 el2 = Inr (- 1)" by (rule neg)
  next
    assume "0 \<le> el1 \<and> 0 \<le> el2"
       and "\<not> (\<exists>c. 0 \<le> c \<and> c \<noteq> el \<and> c \<in> set (NbrList m nb el1)
                 \<and> c \<in> set (NbrList m nb el2))"
    then show "GetCommonElem m nb el el1 el2 = Inr (- 1)"
      using none by blast
  next
    fix c
    assume "0 \<le> el1 \<and> 0 \<le> el2"
       and "common_matches el (NbrList m nb el1) (NbrList m nb el2) = [c]"
    then show "GetCommonElem m nb el el1 el2 = Inr c"
      by (simp add: pos)
  next
    fix c
    assume "common_matches el (NbrList m nb el1) (NbrList m nb el2) = [c]"
    from mem[OF this]
    show "0 \<le> c" "c \<noteq> el" "c \<in> set (NbrList m nb el1)"
         "c \<in> set (NbrList m nb el2)"
      by simp_all
  next
    assume "0 \<le> el1 \<and> 0 \<le> el2"
       and "2 \<le> length (common_matches el (NbrList m nb el1) (NbrList m nb el2))"
    then show "GetCommonElem m nb el el1 el2 =
                 Inl (mfem_error ''Found multiple common neighbor elements.'')"
      using two[of "common_matches el (NbrList m nb el1) (NbrList m nb el2)"]
      by (auto simp: pos)
  qed
qed

lemma row3_nbrs:
  "NbrList row3 4 0 = [- 1, 1, - 1, - 1]"
  "NbrList row3 4 1 = [- 1, 2, - 1, 0]"
  "NbrList row3 4 2 = [- 1, - 1, - 1, 1]"
  by (simp_all add: NbrList_def NbrAcross_def row3_def upt_rec)

theorem GetCommonElem_cases_witness:
  "GetCommonElem row3 4 1 (- 1) 2 = Inr (- 1)
   \<and> GetCommonElem row3 4 1 0 2 = Inr (- 1)
   \<and> GetCommonElem row3 4 5 0 2 = Inr 1
   \<and> GetCommonElem row3 4 5 1 1 =
        Inl (mfem_error ''Found multiple common neighbor elements.'')"
  using GetCommonElem_cases[of "- 1" 2 row3 4 1]
        GetCommonElem_cases[of 0 2 row3 4 1]
        GetCommonElem_cases[of 0 2 row3 4 5]
        GetCommonElem_cases[of 1 1 row3 4 5]
  by (simp add: row3_nbrs common_matches_def Let_def)

subsection \<open>The bounds map keeps the owning element\<close>

lemma grows_refl: "grows mfb mfb"
  by (simp add: grows_def)

lemma grows_trans: "grows a b \<Longrightarrow> grows b c \<Longrightarrow> grows a c"
  by (auto simp: grows_def)

lemma grows_push_back: "grows mfb (push_back mfb d e)"
  by (auto simp: grows_def push_back_def)

lemma grows_push_if: "grows mfb (push_if mfb d nbr)"
  by (simp add: push_if_def grows_push_back grows_refl)

lemma grows_fold:
  "(\<And>x s. x \<in> set xs \<Longrightarrow> grows s (f x s)) \<Longrightarrow> grows s (fold f xs s)"
proof (induction xs arbitrary: s)
  case Nil
  show ?case by (simp add: grows_refl)
next
  case (Cons x xs)
  have "grows s (f x s)" using Cons.prems by simp
  moreover have "grows (f x s) (fold f xs (f x s))"
    using Cons.prems by (intro Cons.IH) simp
  ultimately show ?case by (auto intro: grows_trans)
qed

lemma grows_fold_err:
  "(\<And>x s s'. x \<in> set xs \<Longrightarrow> f x s = Inr s' \<Longrightarrow> grows s s') \<Longrightarrow>
     fold_err f xs s = Inr s' \<Longrightarrow> grows s s'"
proof (induction xs arbitrary: s)
  case Nil
  then show ?case by (simp add: grows_refl)
next
  case (Cons x xs)
  from Cons.prems(2) obtain s1 where s1: "f x s = Inr s1" "fold_err f xs s1 = Inr s'"
    by (auto split: sum.splits)
  have "grows s s1" by (rule Cons.prems(1)[OF _ s1(1)]) simp
  moreover have "grows s1 s'"
  proof (rule Cons.IH[OF _ s1(2)])
    fix y t t' assume "y \<in> set xs" "f y t = Inr t'"
    then show "grows t t'" using Cons.prems(1)[of y t t'] by simp
  qed
  ultimately show ?case by (rule grows_trans)
qed

lemma bounds_own_mem:
  "i < GetDof fe \<Longrightarrow> k \<in> set (bounds_own fe k mfb (k * GetDof fe + i))"
proof -
  have "i \<in> set is \<Longrightarrow>
        k \<in> set (fold (\<lambda>i mfb. push_back mfb (k * GetDof fe + i) k) is mfb (k * GetDof fe + i))"
    for "is" mfb
  proof (induction "is" arbitrary: mfb)
    case Nil
    then show ?case by simp
  next
    case (Cons a "is")
    show ?case
    proof (cases "i \<in> set is")
      case True
      then show ?thesis using Cons.IH by simp
    next
      case False
      then have [simp]: "a = i" using Cons.prems by simp
      have "k \<in> set (push_back mfb (k * GetDof fe + i) k (k * GetDof fe + i))"
        by (simp add: push_back_def)
      moreover have "grows (push_back mfb (k * GetDof fe + i) k)
          (fold (\<lambda>i mfb. push_back mfb (k * GetDof fe + i) k) is
             (push_back mfb (k * GetDof fe + i) k))"
        by (intro grows_fold grows_push_back)
      ultimately show ?thesis by (auto simp: grows_def)
    qed
  qed
  then show "i < GetDof fe \<Longrightarrow> ?thesis"
    by (simp add: bounds_own_def)
qed

lemma grows_bounds_faces: "grows mfb (bounds_faces fe k NbrElem mfb)"
  unfolding bounds_faces_def
  by (intro grows_fold) (auto intro!: grows_fold grows_push_back simp: grows_refl)

lemma grows_bounds_2d: "bounds_2d m fe k NbrElem mfb = Inr mfb' \<Longrightarrow> grows mfb mfb'"
  unfolding bounds_2d_def Let_def
  by (erule grows_fold_err[rotated]) (auto split: sum.splits simp: grows_push_if)

lemma grows_bounds_edges: "grows mfb (bounds_edges fe k EdgeNbrs mfb)"
  unfolding bounds_edges_def Let_def
  by (intro grows_fold) (auto intro!: grows_fold simp: grows_push_if)

lemma grows_bounds_vertices:
  "bounds_vertices m fe k NbrElem EdgeNbrs mfb = Inr mfb' \<Longrightarrow> grows mfb mfb'"
  unfolding bounds_vertices_def Let_def
  by (erule grows_fold_err[rotated]) (auto split: sum.splits simp: grows_push_if)

lemma grows_bounds_3d: "bounds_3d m fe k NbrElem mfb = Inr mfb' \<Longrightarrow> grows mfb mfb'"
  unfolding bounds_3d_def
  by (auto split: sum.splits intro: grows_trans[OF grows_bounds_edges grows_bounds_vertices])

lemma bounds_elem_grows:
  assumes "bounds_elem m fe k mfb = Inr mfb'"
  shows "grows (bounds_faces fe k (map (\<lambda>i. Nbr m k (ElementBdrs m k ! i)) [0..<numBdrs fe])
                 (bounds_own fe k mfb)) mfb'"
  using assms unfolding bounds_elem_def Let_def
  by (auto split: if_splits intro: grows_bounds_2d grows_bounds_3d grows_refl)

lemma grows_bounds_own: "grows mfb (bounds_own fe k mfb)"
  unfolding bounds_own_def by (intro grows_fold grows_push_back)

lemma bounds_elem_own:
  assumes "bounds_elem m fe k mfb = Inr mfb'"
  shows "grows mfb mfb'" and "i < GetDof fe \<Longrightarrow> k \<in> set (mfb' (k * GetDof fe + i))"
proof -
  let ?own = "bounds_own fe k mfb"
  let ?faces = "bounds_faces fe k (map (\<lambda>i. Nbr m k (ElementBdrs m k ! i)) [0..<numBdrs fe]) ?own"
  have 1: "grows ?own ?faces" by (rule grows_bounds_faces)
  have 2: "grows ?faces mfb'" by (rule bounds_elem_grows[OF assms])
  show "grows mfb mfb'"
    by (rule grows_trans[OF grows_bounds_own grows_trans[OF 1 2]])
  show "k \<in> set (mfb' (k * GetDof fe + i))" if "i < GetDof fe"
    using bounds_own_mem[OF that, of k mfb] 1 2 by (auto simp: grows_def)
qed

lemma GetVertexBoundsMap_own:
  assumes "GetVertexBoundsMap m fe mfb = Inr mfb'" "k < GetNE m" "i < GetDof fe"
  shows "k \<in> set (mfb' (k * GetDof fe + i))"
proof -
  have "fold_err (bounds_elem m fe) ks mfb = Inr mfb' \<Longrightarrow> k \<in> set ks \<Longrightarrow>
        k \<in> set (mfb' (k * GetDof fe + i))" for ks
  proof (induction ks arbitrary: mfb)
    case Nil
    then show ?case by simp
  next
    case (Cons a ks)
    from Cons.prems(1) obtain s1 where
      s1: "bounds_elem m fe a mfb = Inr s1" "fold_err (bounds_elem m fe) ks s1 = Inr mfb'"
      by (auto split: sum.splits)
    show ?case
    proof (cases "k \<in> set ks")
      case True
      then show ?thesis using Cons.IH[OF s1(2)] by simp
    next
      case False
      then have "a = k" using Cons.prems(2) by simp
      then have "k \<in> set (s1 (k * GetDof fe + i))"
        using bounds_elem_own(2)[OF s1(1) assms(3)] by simp
      moreover have "grows s1 mfb'"
        using s1(2) by (rule grows_fold_err[rotated]) (rule bounds_elem_own(1))
      ultimately show ?thesis by (auto simp: grows_def)
    qed
  qed
  then show ?thesis using assms by (simp add: GetVertexBoundsMap_def)
qed

subsection \<open>Exterior slots in \<^verbatim>\<open>FillNeighborDofs\<close>\<close>

text \<open>
  Claim C7 says that the entry \<^verbatim>\<open>NbrDof(k,i,j)\<close> of an exterior slot is \<open>-1\<close> in every
  dimension. The 2-D branch stores \<open>-1\<close>; the 1-D and 3-D branches store
  \<^verbatim>\<open>nbr*nd + offset\<close> with \<open>nbr = -1\<close>. Evaluated on the two-element segment, the right
  end (element 1, slot 1) gets \<open>-2\<close>; on a single hexahedron, face 5 gets \<open>-8\<close> at
  its first dof.
\<close>

theorem FillNeighborDofs_exterior_not_minus_one:
  "exterior seg2 1 1 \<and> FillNeighborDofs seg2 seg_p1 (\<lambda>x. 0) (1, 1, 0) = - 2
   \<and> exterior hex1 0 5 \<and> FillNeighborDofs hex1 hex_p1 (\<lambda>x. 0) (0, 5, 0) = - 8"
  by (simp add: exterior_def FillNeighborDofs_def fill_1d_def fill_3d_def Nbr_def
        seg2_def seg_p1_def hex1_def hex_p1_def upt_rec Let_def)

subsection \<open>Rounding to a double\<close>

lemma pow2_nat: "0 \<le> b \<Longrightarrow> (2::real) powi b = 2 ^ nat b"
  by (simp add: power_int_def)

lemma pow2_neg: "0 \<le> b \<Longrightarrow> (2::real) powi (- b) = 1 / 2 ^ nat b"
  by (cases "b = 0") (simp_all add: power_int_def field_simps)

lemma expo_bounds:
  assumes "r \<noteq> 0"
  shows "2 powi (expo r) \<le> \<bar>r\<bar>" and "\<bar>r\<bar> < 2 powi (expo r + 1)"
proof -
  have "2 powi (expo r) \<le> \<bar>r\<bar> \<and> \<bar>r\<bar> < 2 powi (expo r + 1)"
  proof (cases "1 \<le> \<bar>r\<bar>")
    case True
    let ?n = "\<lfloor>\<bar>r\<bar>\<rfloor>"
    have n: "0 < ?n" using True by simp
    have b1: "1 \<le> bitlen ?n" using n by (simp add: bitlen_alt_def)
    from bitlen_bounds[OF n] have lo: "2 ^ nat (bitlen ?n - 1) \<le> ?n" and hi: "?n < 2 ^ nat (bitlen ?n)"
      by simp_all
    have "(2::real) ^ nat (bitlen ?n - 1) \<le> of_int ?n"
      using lo by (metis of_int_le_iff of_int_numeral of_int_power)
    also have "\<dots> \<le> \<bar>r\<bar>" by simp
    finally have 1: "(2::real) ^ nat (bitlen ?n - 1) \<le> \<bar>r\<bar>" .
    have "?n + 1 \<le> 2 ^ nat (bitlen ?n)" using hi by simp
    then have "of_int (?n + 1) \<le> (2::real) ^ nat (bitlen ?n)"
      by (metis of_int_le_iff of_int_numeral of_int_power)
    moreover have "\<bar>r\<bar> < of_int (?n + 1)" by linarith
    ultimately have 2: "\<bar>r\<bar> < (2::real) ^ nat (bitlen ?n)" by linarith
    have e: "expo r = bitlen ?n - 1" using True by (simp add: expo_def)
    show ?thesis
      using 1 2 b1 unfolding e by (simp add: pow2_nat)
  next
    case False
    let ?a = "\<bar>r\<bar>"
    have a: "0 < ?a" "?a < 1" using assms False by simp_all
    let ?m = "\<lceil>1 / ?a\<rceil> - 1"
    have "1 < 1 / ?a" using a by simp
    then have "1 < \<lceil>1 / ?a\<rceil>" by linarith
    then have m: "0 < ?m" by simp
    have b1: "1 \<le> bitlen ?m" using m by (simp add: bitlen_alt_def)
    from bitlen_bounds[OF m] have lo: "2 ^ nat (bitlen ?m - 1) \<le> ?m" and hi: "?m < 2 ^ nat (bitlen ?m)"
      by simp_all
    have "?m + 1 \<le> 2 ^ nat (bitlen ?m)" using hi by simp
    then have "of_int (?m + 1) \<le> (2::real) ^ nat (bitlen ?m)"
      by (metis of_int_le_iff of_int_numeral of_int_power)
    moreover have "1 / ?a \<le> of_int (?m + 1)" by simp
    ultimately have "1 / ?a \<le> (2::real) ^ nat (bitlen ?m)" by linarith
    then have 1: "1 / 2 ^ nat (bitlen ?m) \<le> ?a"
      using a by (simp add: field_simps)
    have "(2::real) ^ nat (bitlen ?m - 1) \<le> of_int ?m"
      using lo by (metis of_int_le_iff of_int_numeral of_int_power)
    moreover have "of_int ?m < 1 / ?a" by linarith
    ultimately have "(2::real) ^ nat (bitlen ?m - 1) < 1 / ?a" by linarith
    then have 2: "?a < 1 / 2 ^ nat (bitlen ?m - 1)"
      using a by (simp add: field_simps)
    have e: "expo r = - bitlen ?m" using False by (simp add: expo_def)
    have 3: "(2::real) powi (expo r + 1) = 1 / 2 ^ nat (bitlen ?m - 1)"
      using pow2_neg[of "bitlen ?m - 1"] b1 by (simp add: e)
    have 4: "(2::real) powi (expo r) = 1 / 2 ^ nat (bitlen ?m)"
      using pow2_neg[of "bitlen ?m"] b1 by (simp add: e)
    show ?thesis
      unfolding 3 4 using 1 2 by simp
  qed
  then show "2 powi (expo r) \<le> \<bar>r\<bar>" and "\<bar>r\<bar> < 2 powi (expo r + 1)" by simp_all
qed

lemma expo_unique:
  assumes "2 powi k \<le> \<bar>r\<bar>" and "\<bar>r\<bar> < 2 powi (k + 1)"
  shows "expo r = k"
proof -
  have "0 < (2::real) powi k" by (simp add: zero_less_power_int)
  have r: "r \<noteq> 0"
  proof
    assume "r = 0"
    then have "(2::real) powi k \<le> 0" using assms(1) by simp
    then show False using \<open>0 < (2::real) powi k\<close> by linarith
  qed
  have "(2::real) powi (expo r) < 2 powi (k + 1)"
    using expo_bounds(1)[OF r] assms(2) by linarith
  then have 1: "expo r < k + 1"
    by (metis not_le power_int_increasing[of _ _ "2::real"] one_le_numeral not_less)
  have "(2::real) powi k < 2 powi (expo r + 1)"
    using expo_bounds(2)[OF r] assms(1) by linarith
  then have 2: "k < expo r + 1"
    by (metis not_le power_int_increasing[of _ _ "2::real"] one_le_numeral not_less)
  show ?thesis using 1 2 by simp
qed

lemma expo_minus [simp]: "expo (- r) = expo r"
  by (simp add: expo_def)

lemma round_even_floor: "\<lfloor>y\<rfloor> \<le> round_even y"
  by (simp add: round_even_def Let_def)

lemma round_even_floor1: "round_even y \<le> \<lfloor>y\<rfloor> + 1"
  by (simp add: round_even_def Let_def)

lemma round_even_of_int [simp]: "round_even (of_int n) = n"
  by (simp add: round_even_def)

lemma round_even_ceiling: "round_even y \<le> \<lceil>y\<rceil>"
proof (cases "y = of_int \<lfloor>y\<rfloor>")
  case True
  then show ?thesis by (metis ceiling_of_int order_refl round_even_of_int)
next
  case False
  then have "\<lceil>y\<rceil> = \<lfloor>y\<rfloor> + 1" by (simp add: ceiling_altdef)
  then show ?thesis using round_even_floor1[of y] by simp
qed


lemma round_even_minus: "round_even (- y) = - round_even y"
proof (cases "y = of_int \<lfloor>y\<rfloor>")
  case True
  then obtain n where "y = of_int n" ..
  then show ?thesis by (metis of_int_minus round_even_of_int)
next
  case False
  then have f: "\<lfloor>- y\<rfloor> = - \<lfloor>y\<rfloor> - 1"
    by (metis ceiling_altdef ceiling_def diff_minus_eq_add add_diff_cancel minus_diff_eq
          uminus_add_conv_diff)
  have e: "even (- \<lfloor>y\<rfloor> - 1) \<longleftrightarrow> odd \<lfloor>y\<rfloor>" by simp
  show ?thesis
    unfolding round_even_def Let_def f e
    by (auto simp: algebra_simps)
qed

lemma rnd_zero [simp]: "rnd 0 = 0"
  by (simp add: rnd_def)

lemma rnd_minus: "rnd (- r) = - rnd r"
  by (simp add: rnd_def Let_def round_even_minus)

lemma rnd_nonneg: "0 \<le> r \<Longrightarrow> 0 \<le> rnd r"
proof -
  assume r: "0 \<le> r"
  have u: "0 < (2::real) powi (expo r - 52)" by (simp add: zero_less_power_int)
  have "0 \<le> r / 2 powi (expo r - 52)" using r u by simp
  then have "0 \<le> \<lfloor>r / 2 powi (expo r - 52)\<rfloor>" by simp
  then have "0 \<le> round_even (r / 2 powi (expo r - 52))"
    using round_even_floor[of "r / 2 powi (expo r - 52)"] by linarith
  then show ?thesis using u by (simp add: rnd_def Let_def)
qed

lemma rnd_nonpos: "r \<le> 0 \<Longrightarrow> rnd r \<le> 0"
  using rnd_nonneg[of "- r"] by (simp add: rnd_minus)

text \<open>A positive number rounds into the closed binade that holds it.\<close>

lemma pow2_split: "(2::real) powi (e + 1) = 2 ^ 53 * 2 powi (e - 52)"
  "(2::real) powi e = 2 ^ 52 * 2 powi (e - 52)"
proof -
  have "(2::real) powi (53 + (e - 52)) = 2 powi 53 * 2 powi (e - 52)"
    by (rule power_int_add) simp
  moreover have "53 + (e - 52) = e + 1" by simp
  ultimately show "(2::real) powi (e + 1) = 2 ^ 53 * 2 powi (e - 52)" by simp
  have "(2::real) powi (52 + (e - 52)) = 2 powi 52 * 2 powi (e - 52)"
    by (rule power_int_add) simp
  moreover have "52 + (e - 52) = e" by simp
  ultimately show "(2::real) powi e = 2 ^ 52 * 2 powi (e - 52)" by simp
qed

lemma rnd_binade:
  assumes "0 < r"
  shows "2 powi (expo r) \<le> rnd r" and "rnd r \<le> 2 powi (expo r + 1)"
proof -
  let ?u = "(2::real) powi (expo r - 52)"
  have u: "0 < ?u" by (simp add: zero_less_power_int)
  have r0: "r \<noteq> 0" using assms by simp
  have lo: "2 ^ 52 * ?u \<le> r" and hi: "r < 2 ^ 53 * ?u"
    using expo_bounds[OF r0] assms unfolding pow2_split[symmetric] by simp_all
  have "2 ^ 52 \<le> r / ?u" using lo u by (simp add: field_simps)
  then have "2 ^ 52 \<le> \<lfloor>r / ?u\<rfloor>" by (simp add: le_floor_iff)
  then have 1: "2 ^ 52 \<le> round_even (r / ?u)"
    using round_even_floor[of "r / ?u"] by linarith
  have "r / ?u \<le> 2 ^ 53" using hi u by (simp add: field_simps)
  then have "\<lceil>r / ?u\<rceil> \<le> 2 ^ 53" by (simp add: ceiling_le_iff)
  then have 2: "round_even (r / ?u) \<le> 2 ^ 53"
    using round_even_ceiling[of "r / ?u"] by linarith
  have "(2::real) ^ 52 \<le> of_int (round_even (r / ?u))"
    using 1 by (metis of_int_le_iff of_int_numeral of_int_power)
  then have "2 ^ 52 * ?u \<le> of_int (round_even (r / ?u)) * ?u"
    using u by simp
  then show "2 powi (expo r) \<le> rnd r"
    using r0 unfolding pow2_split(2)[of "expo r"] by (simp add: rnd_def Let_def)
  have "of_int (round_even (r / ?u)) \<le> (2::real) ^ 53"
    using 2 by (metis of_int_le_iff of_int_numeral of_int_power)
  then have "of_int (round_even (r / ?u)) * ?u \<le> 2 ^ 53 * ?u"
    using u by simp
  then show "rnd r \<le> 2 powi (expo r + 1)"
    using r0 unfolding pow2_split(1)[of "expo r"] by (simp add: rnd_def Let_def)
qed



text \<open>A number with a significand of at most 53 bits is its own rounding.\<close>

lemma int_pow2_le_real: "(2::int) ^ n \<le> m \<Longrightarrow> (2::real) ^ n \<le> of_int m"
proof -
  assume "(2::int) ^ n \<le> m"
  then have "(of_int ((2::int) ^ n) :: real) \<le> of_int m" by (simp only: of_int_le_iff)
  then show ?thesis by simp
qed

lemma int_less_pow2_real: "m < (2::int) ^ n \<Longrightarrow> of_int m < (2::real) ^ n"
proof -
  assume "m < (2::int) ^ n"
  then have "(of_int m :: real) < of_int ((2::int) ^ n)" by (simp only: of_int_less_iff)
  then show ?thesis by simp
qed

lemma rnd_dyadic:
  assumes m: "\<bar>m\<bar> < 2 ^ 53"
  shows "rnd (of_int m * 2 powi k) = of_int m * 2 powi k"
proof (cases "m = 0")
  case True
  then show ?thesis by simp
next
  case False
  let ?r = "of_int m * (2::real) powi k"
  let ?n = "\<bar>m\<bar>"
  have n: "0 < ?n" using False by simp
  have b1: "1 \<le> bitlen ?n" using n by (simp add: bitlen_alt_def)
  have b53: "bitlen ?n \<le> 53" using m by (simp add: bitlen_le_iff_power)
  from bitlen_bounds[OF n] have lo: "2 ^ nat (bitlen ?n - 1) \<le> ?n" and hi: "?n < 2 ^ nat (bitlen ?n)"
    by simp_all
  have absr: "\<bar>?r\<bar> = of_int ?n * 2 powi k" by (simp add: abs_mult)
  have k0: "0 < (2::real) powi k" by (simp add: zero_less_power_int)
  have "(2::real) ^ nat (bitlen ?n - 1) \<le> of_int ?n"
    using lo by (rule int_pow2_le_real)
  moreover have "(2::real) powi (bitlen ?n - 1) = 2 ^ nat (bitlen ?n - 1)"
    using b1 by (intro pow2_nat) simp
  ultimately have "(2::real) powi (bitlen ?n - 1) \<le> of_int ?n" by simp
  then have "2 powi (bitlen ?n - 1) * 2 powi k \<le> of_int ?n * (2::real) powi k"
    using k0 by simp
  then have 1: "2 powi (bitlen ?n - 1 + k) \<le> \<bar>?r\<bar>"
    unfolding absr by (simp add: power_int_add)
  have "of_int ?n < (2::real) ^ nat (bitlen ?n)"
    using hi by (rule int_less_pow2_real)
  moreover have "(2::real) powi (bitlen ?n) = 2 ^ nat (bitlen ?n)"
    using b1 by (intro pow2_nat) simp
  ultimately have "of_int ?n < (2::real) powi (bitlen ?n)" by simp
  then have "of_int ?n * (2::real) powi k < 2 powi (bitlen ?n) * 2 powi k"
    using k0 by simp
  then have 2: "\<bar>?r\<bar> < 2 powi (bitlen ?n - 1 + k + 1)"
    unfolding absr by (simp add: power_int_add)
  have e: "expo ?r = bitlen ?n - 1 + k" using 1 2 by (rule expo_unique)
  let ?s = "53 - bitlen ?n"
  have s: "0 \<le> ?s" using b53 by simp
  define U where "U = (2::real) powi (expo ?r - 52)"
  define S where "S = (2::real) powi ?s"
  have U0: "0 < U" by (simp add: U_def zero_less_power_int)
  have "(2::real) powi (?s + (expo ?r - 52)) = 2 powi ?s * 2 powi (expo ?r - 52)"
    by (rule power_int_add) simp
  moreover have "?s + (expo ?r - 52) = k" by (simp add: e)
  ultimately have kSU: "(2::real) powi k = S * U" by (simp add: U_def S_def)
  have "of_int m * (S * U) / U = of_int m * S" using U0 by simp
  then have "of_int m * 2 powi k / U = of_int m * S" unfolding kSU .
  also have "S = of_int (2 ^ nat ?s)" using s by (simp add: S_def pow2_nat)
  finally have q: "?r / 2 powi (expo ?r - 52) = of_int (m * 2 ^ nat ?s)"
    by (simp add: U_def)
  have r0: "?r \<noteq> 0" using False k0 by simp
  have "rnd ?r = of_int (m * 2 ^ nat ?s) * 2 powi (expo ?r - 52)"
    using r0 unfolding rnd_def Let_def q round_even_of_int by simp
  also have "\<dots> = of_int m * (S * U)" using s by (simp add: S_def U_def pow2_nat)
  also have "\<dots> = ?r" by (simp only: kSU[symmetric])
  finally show ?thesis .
qed

lemma rnd_idem [simp]: "rnd (rnd r) = rnd r"
proof (cases "r = 0")
  case True
  then show ?thesis by simp
next
  case False
  have pos: "rnd (rnd r) = rnd r" if r: "0 < r" for r
  proof -
    let ?u = "(2::real) powi (expo r - 52)"
    let ?n = "round_even (r / ?u)"
    have u: "0 < ?u" by (simp add: zero_less_power_int)
    have e: "rnd r = of_int ?n * ?u" using r by (simp add: rnd_def Let_def)
    have "rnd r \<le> 2 ^ 53 * ?u" using rnd_binade(2)[OF r] by (simp add: pow2_split(1))
    then have "of_int ?n \<le> (2::real) ^ 53" using u unfolding e by simp
    then have n53: "?n \<le> 2 ^ 53" by (metis of_int_le_iff of_int_numeral of_int_power)
    have "0 \<le> rnd r" using r by (intro rnd_nonneg) simp
    then have "0 \<le> of_int ?n * ?u" unfolding e .
    then have n0: "0 \<le> ?n" using u by (simp add: zero_le_mult_iff)
    show ?thesis
    proof (cases "?n = 2 ^ 53")
      case True
      have "rnd r = of_int 1 * 2 powi (expo r + 1)"
        unfolding e True by (simp add: pow2_split(1))
      moreover have "rnd (of_int 1 * 2 powi (expo r + 1)) = of_int 1 * 2 powi (expo r + 1)"
        by (rule rnd_dyadic) simp
      ultimately show ?thesis by simp
    next
      case False
      then have "\<bar>?n\<bar> < 2 ^ 53" using n53 n0 by simp
      from rnd_dyadic[OF this, of "expo r - 52"] show ?thesis unfolding e .
    qed
  qed
  show ?thesis
  proof (cases "0 < r")
    case True
    then show ?thesis by (rule pos)
  next
    case neg: False
    then have "0 < - r" using False by simp
    from pos[OF this] show ?thesis by (simp add: rnd_minus)
  qed
qed

lemma rnd_of_int: "\<bar>m\<bar> < 2 ^ 53 \<Longrightarrow> rnd (of_int m) = of_int m"
  using rnd_dyadic[of m 0] by simp

lemma rnd_one [simp]: "rnd 1 = 1"
  using rnd_of_int[of 1] by simp

lemma rnd_pos: "0 < r \<Longrightarrow> 0 < rnd r"
proof -
  assume r: "0 < r"
  have "0 < (2::real) powi (expo r)" by (simp add: zero_less_power_int)
  then show ?thesis using rnd_binade(1)[OF r] by linarith
qed

lemma rnd_neg: "r < 0 \<Longrightarrow> rnd r < 0"
  using rnd_pos[of "- r"] by (simp add: rnd_minus)

lemma rnd_eq_0_iff [simp]: "rnd r = 0 \<longleftrightarrow> r = 0"
proof
  assume z: "rnd r = 0"
  show "r = 0"
  proof (rule ccontr)
    assume "r \<noteq> 0"
    then consider "0 < r" | "r < 0" by linarith
    then show False
    proof cases
      case 1
      from rnd_pos[OF this] show False unfolding z by simp
    next
      case 2
      from rnd_neg[OF this] show False unfolding z by simp
    qed
  qed
qed simp

lemma rnd_numeral [simp]: "numeral n < (2::int) ^ 53 \<Longrightarrow> rnd (numeral n) = numeral n"
  using rnd_of_int[of "numeral n"] by simp

lemma rnd_neg_numeral [simp]:
  "numeral n < (2::int) ^ 53 \<Longrightarrow> rnd (- numeral n) = - numeral n"
  by (simp add: rnd_minus)

lemma rnd_neg_one [simp]: "rnd (- 1) = - 1"
  by (simp add: rnd_minus)



lemma dsub_Fin [simp]: "dsub (Fin a) (Fin b) = Fin (rnd (a - b))"
  by (simp add: dsub_def)

lemma finite_d_val: "finite_d x \<Longrightarrow> x = Fin (val x)"
  by (cases x) auto


lemma rnd_eps [simp]: "rnd eps = eps"
  using rnd_dyadic[of 2535301200456459 "- 101"] by (simp add: eps_def power_int_minus field_simps)


subsection \<open>The bounds query\<close>

lemma std_min_Fin [simp]: "std_min (Fin a) (Fin b) = Fin (min a b)"
  by (simp add: std_min_def min_def)

lemma std_max_Fin [simp]: "std_max (Fin a) (Fin b) = Fin (max a b)"
  by (simp add: std_max_def max_def)

lemma std_min_PInf [simp]: "std_min PInf (Fin b) = Fin b"
  by (simp add: std_min_def)

lemma std_max_MInf [simp]: "std_max MInf (Fin b) = Fin b"
  by (simp add: std_max_def)

lemma vertex_bounds_fold:
  assumes "d < length (xi_min D)" "d < length (xi_max D)"
      and "xi_min D ! d = Fin a" "xi_max D ! d = Fin b"
      and "\<forall>e\<in>set es. xe_min D ! e = Fin (lo e) \<and> xe_max D ! e = Fin (hi e)"
  shows "xi_min (fold (vertex_bounds_step d) es D) ! d = Fin (Min (insert a (lo ` set es)))
       \<and> xi_max (fold (vertex_bounds_step d) es D) ! d = Fin (Max (insert b (hi ` set es)))"
  using assms
proof (induction es arbitrary: D a b)
  case Nil
  then show ?case by simp
next
  case (Cons e es)
  let ?D = "vertex_bounds_step d e D"
  have e: "xe_min D ! e = Fin (lo e)" "xe_max D ! e = Fin (hi e)"
    using Cons.prems(5) by simp_all
  have D1: "xi_min ?D ! d = Fin (min a (lo e))" "xi_max ?D ! d = Fin (max b (hi e))"
           "length (xi_min ?D) = length (xi_min D)" "length (xi_max ?D) = length (xi_max D)"
           "xe_min ?D = xe_min D" "xe_max ?D = xe_max D"
    using Cons.prems(1-4) e by (simp_all add: vertex_bounds_step_def Let_def)
  have IH: "xi_min (fold (vertex_bounds_step d) es ?D) ! d
               = Fin (Min (insert (min a (lo e)) (lo ` set es)))
          \<and> xi_max (fold (vertex_bounds_step d) es ?D) ! d
               = Fin (Max (insert (max b (hi e)) (hi ` set es)))"
    using Cons.prems D1 by (intro Cons.IH) simp_all
  have "Min (insert (min a (lo e)) (lo ` set es)) = Min (insert a (lo ` set (e # es)))"
    by (cases "es = []") (simp_all add: min.assoc)
  moreover have "Max (insert (max b (hi e)) (hi ` set es)) = Max (insert b (hi ` set (e # es)))"
    by (cases "es = []") (simp_all add: max.assoc)
  ultimately show ?case using IH by simp
qed

lemma ComputeVertexBounds_values:
  assumes "d < length (xi_min D)" "d < length (xi_max D)"
      and "map_for_bounds D d \<noteq> []"
      and "\<forall>e\<in>set (map_for_bounds D d). xe_min D ! e = Fin (lo e) \<and> xe_max D ! e = Fin (hi e)"
  shows "xi_min (ComputeVertexBounds D d) ! d = Fin (Min (lo ` set (map_for_bounds D d)))"
    and "xi_max (ComputeVertexBounds D d) ! d = Fin (Max (hi ` set (map_for_bounds D d)))"
proof -
  obtain e es where es: "map_for_bounds D d = e # es"
    using assms(3) by (cases "map_for_bounds D d") auto
  let ?D0 = "D\<lparr>xi_min := (xi_min D)[d := PInf], xi_max := (xi_max D)[d := MInf]\<rparr>"
  let ?D1 = "vertex_bounds_step d e ?D0"
  have e: "xe_min D ! e = Fin (lo e)" "xe_max D ! e = Fin (hi e)"
    using assms(4) es by simp_all
  have cvb: "ComputeVertexBounds D d = fold (vertex_bounds_step d) es ?D1"
    using assms(1) by (simp add: ComputeVertexBounds_def Let_def es)
  have D1: "xi_min ?D1 ! d = Fin (lo e)" "xi_max ?D1 ! d = Fin (hi e)"
           "d < length (xi_min ?D1)" "d < length (xi_max ?D1)"
           "xe_min ?D1 = xe_min D" "xe_max ?D1 = xe_max D"
    using assms(1,2) e by (simp_all add: vertex_bounds_step_def Let_def)
  have rest: "\<forall>e\<in>set es. xe_min ?D1 ! e = Fin (lo e) \<and> xe_max ?D1 ! e = Fin (hi e)"
    using assms(4) es D1(5,6) by simp
  from vertex_bounds_fold[OF D1(3,4,1,2) rest]
  show "xi_min (ComputeVertexBounds D d) ! d = Fin (Min (lo ` set (map_for_bounds D d)))"
   and "xi_max (ComputeVertexBounds D d) ! d = Fin (Max (hi ` set (map_for_bounds D d)))"
    by (simp_all add: cvb es)
qed

text \<open>
  Claim C4. Let \<^verbatim>\<open>map_for_bounds\<close> be what \<^verbatim>\<open>GetVertexBoundsMap\<close> built, and \<open>d\<close> the dof
  \<open>i\<close> of element \<open>k\<close>. The owning element \<open>k\<close> is among the contributors of \<open>d\<close>, so
  they are not empty; after \<^verbatim>\<open>ComputeVertexBounds(x, d)\<close>, \<^verbatim>\<open>xi_min(d)\<close> is the least
  \<^verbatim>\<open>xe_min(e)\<close> and \<^verbatim>\<open>xi_max(d)\<close> the greatest \<^verbatim>\<open>xe_max(e)\<close> over the contributors \<open>e\<close>
  of \<open>d\<close>; and when \<^verbatim>\<open>xe_min(e) <= xe_max(e)\<close> for each of them,
  \<^verbatim>\<open>xi_min(d) <= xi_max(d)\<close>. The element bounds are finite doubles.
\<close>

theorem ComputeVertexBounds_min_max:
  assumes "GetVertexBoundsMap m fe mfb0 = Inr (map_for_bounds D)"
      and "k < GetNE m" "i < GetDof fe" "d = k * GetDof fe + i"
      and "d < length (xi_min D)" "d < length (xi_max D)"
      and "\<forall>e\<in>set (map_for_bounds D d).
             e < length (xe_min D) \<and> e < length (xe_max D)
             \<and> xe_min D ! e = Fin (lo e) \<and> xe_max D ! e = Fin (hi e)"
  shows "k \<in> set (map_for_bounds D d)
       \<and> xi_min (ComputeVertexBounds D d) ! d = Fin (Min (lo ` set (map_for_bounds D d)))
       \<and> xi_max (ComputeVertexBounds D d) ! d = Fin (Max (hi ` set (map_for_bounds D d)))
       \<and> ((\<forall>e\<in>set (map_for_bounds D d). lo e \<le> hi e) \<longrightarrow>
            dle (xi_min (ComputeVertexBounds D d) ! d) (xi_max (ComputeVertexBounds D d) ! d))"
proof -
  have own: "k \<in> set (map_for_bounds D d)"
    using GetVertexBoundsMap_own[OF assms(1-3)] assms(4) by simp
  then have ne: "map_for_bounds D d \<noteq> []" by auto
  have fin: "\<forall>e\<in>set (map_for_bounds D d). xe_min D ! e = Fin (lo e) \<and> xe_max D ! e = Fin (hi e)"
    using assms(7) by simp
  note v = ComputeVertexBounds_values[OF assms(5,6) ne fin]
  have "Min (lo ` set (map_for_bounds D d)) \<le> Max (hi ` set (map_for_bounds D d))"
    if "\<forall>e\<in>set (map_for_bounds D d). lo e \<le> hi e"
  proof -
    have "Min (lo ` set (map_for_bounds D d)) \<le> lo k" using own by simp
    also have "lo k \<le> hi k" using that own by simp
    also have "hi k \<le> Max (hi ` set (map_for_bounds D d))" using own by simp
    finally show ?thesis .
  qed
  then show ?thesis using own v by simp
qed

lemma seg2_GetVertexBoundsMap:
  "GetVertexBoundsMap seg2 seg_p1 (\<lambda>d. []) = Inr seg2_bounds"
  by (auto simp: GetVertexBoundsMap_def bounds_elem_def bounds_own_def bounds_faces_def
        push_back_def Nbr_def seg2_def seg_p1_def seg2_bounds_def upt_rec Let_def fun_eq_iff)

theorem ComputeVertexBounds_min_max_witness:
  "0 \<in> set (map_for_bounds seg2_dofs 1)
   \<and> xi_min (ComputeVertexBounds seg2_dofs 1) ! 1 = Fin 1
   \<and> xi_max (ComputeVertexBounds seg2_dofs 1) ! 1 = Fin 5
   \<and> dle (xi_min (ComputeVertexBounds seg2_dofs 1) ! 1)
          (xi_max (ComputeVertexBounds seg2_dofs 1) ! 1)"
proof -
  have m: "GetVertexBoundsMap seg2 seg_p1 (\<lambda>d. []) = Inr (map_for_bounds seg2_dofs)"
    by (simp add: seg2_GetVertexBoundsMap seg2_dofs_def)
  show ?thesis
    using ComputeVertexBounds_min_max[OF m, of 0 1 1
            "\<lambda>e. if e = 0 then 1 else 2" "\<lambda>e. if e = 0 then 3 else 5"]
    by (simp add: seg2_def seg_p1_def seg2_dofs_def seg2_bounds_def)
qed

subsection \<open>The iterations of \<^verbatim>\<open>NeumannSolve\<close>\<close>

lemma fold_upd_nth:
  "distinct js \<Longrightarrow> j < length x \<Longrightarrow>
     fold (\<lambda>i x. x[i := g i (x ! i)]) js x ! j =
       (if j \<in> set js then g j (x ! j) else x ! j)"
proof (induction js arbitrary: x)
  case Nil
  show ?case by simp
next
  case (Cons a js)
  then show ?case by (cases "a = j") auto
qed

lemma neumann_update_nth:
  "i < length f \<Longrightarrow> i < length x \<Longrightarrow>
     neumann_update M lumpedM f x ! i =
       dsub (x ! i) (ddiv (neumann_resid M f x ! i) (lumpedM ! i))"
  unfolding neumann_update_def Let_def
  by (subst fold_upd_nth) simp_all

lemma neumann_iter_steps:
  "iter \<le> Suc max_iter \<Longrightarrow>
   \<exists>n\<le>Suc max_iter - iter.
      neumann_iter M lumpedM f iter x = (neumann_update M lumpedM f ^^ n) x
    \<and> (\<forall>i<n. \<not> neumann_done M f ((neumann_update M lumpedM f ^^ i) x))
    \<and> (n < Suc max_iter - iter \<longrightarrow> neumann_done M f ((neumann_update M lumpedM f ^^ n) x))"
proof (induction M lumpedM f iter x rule: neumann_iter.induct)
  case (1 M lumpedM f iter x)
  let ?U = "neumann_update M lumpedM f"
  show ?case
  proof (cases "iter \<le> max_iter")
    case False
    then have "neumann_iter M lumpedM f iter x = x" "Suc max_iter - iter = 0"
      using "1.prems" by (simp_all add: neumann_iter.simps)
    then show ?thesis by simp
  next
    case True
    show ?thesis
    proof (cases "neumann_done M f x")
      case d: True
      then have "neumann_iter M lumpedM f iter x = x"
        using True by (simp add: neumann_iter.simps)
      then show ?thesis using d by (intro exI[of _ 0]) simp
    next
      case d: False
      have eq: "neumann_iter M lumpedM f iter x = neumann_iter M lumpedM f (Suc iter) (?U x)"
        using True d by (subst neumann_iter.simps) simp
      from "1.IH"[OF True d] True obtain n where
        n: "n \<le> Suc max_iter - Suc iter"
           "neumann_iter M lumpedM f (Suc iter) (?U x) = (?U ^^ n) (?U x)"
           "\<forall>i<n. \<not> neumann_done M f ((?U ^^ i) (?U x))"
           "n < Suc max_iter - Suc iter \<longrightarrow> neumann_done M f ((?U ^^ n) (?U x))"
        by auto
      show ?thesis
      proof (intro exI[of _ "Suc n"] conjI allI impI)
        show "Suc n \<le> Suc max_iter - iter" using n(1) True by simp
        show "neumann_iter M lumpedM f iter x = (?U ^^ Suc n) x"
          using eq n(2) by (simp add: funpow_swap1)
        show "\<not> neumann_done M f ((?U ^^ i) x)" if "i < Suc n" for i
        proof (cases i)
          case 0
          then show ?thesis using d by simp
        next
          case (Suc i')
          then show ?thesis using n(3) that by (simp add: funpow_swap1)
        qed
        show "neumann_done M f ((?U ^^ Suc n) x)" if "Suc n < Suc max_iter - iter"
          using n(4) that by (simp add: funpow_swap1)
      qed
    qed
  qed
qed

text \<open>
  Claim C5. \<^verbatim>\<open>NeumannSolve(f, x)\<close> starts from \<open>x = 0\<close> and returns the iterate after
  \<open>n\<close> updates for some \<open>n \<le> 20\<close>: none of the iterates before the \<open>n\<close>-th met the
  tolerance \<^verbatim>\<open>||M x - f|| <= 1e-4\<close> at the start of its iteration, and the \<open>n\<close>-th one
  meets it unless \<open>n = 20\<close>, where the routine returns the iterate without a test.
  It returns a vector in every case. One update replaces each \<open>x(i)\<close>, \<open>i < f.Size()\<close>,
  by \<^verbatim>\<open>x(i) - (M x - f)(i) / lumpedM(i)\<close>.
\<close>

theorem NeumannSolve_iterations:
  "(\<exists>n\<le>20.
      NeumannSolve M lumpedM f x =
        (neumann_update M lumpedM f ^^ n) (replicate (length x) (Fin 0))
    \<and> (\<forall>i<n. \<not> neumann_done M f
                  ((neumann_update M lumpedM f ^^ i) (replicate (length x) (Fin 0))))
    \<and> (n < 20 \<longrightarrow> neumann_done M f
                  ((neumann_update M lumpedM f ^^ n) (replicate (length x) (Fin 0)))))
   \<and> (\<forall>v i. i < length f \<and> i < length v \<longrightarrow>
         neumann_update M lumpedM f v ! i =
           dsub (v ! i) (ddiv (neumann_resid M f v ! i) (lumpedM ! i)))"
  using neumann_iter_steps[of 1 M lumpedM f "replicate (length x) (Fin 0)"]
  by (simp add: NeumannSolve_def max_iter_def neumann_update_nth)

lemma sqrt_nine: "sqrt 9 = 3"
proof -
  have "sqrt (3\<^sup>2) = \<bar>3\<bar>" by (rule real_sqrt_abs)
  then show ?thesis by simp
qed

text \<open>The residual, the test and the update on the one-by-one systems \<open>x = 3\<close> and
  \<open>2 x = 3\<close> with the lumped mass 1, at the iterates 0 and 3.\<close>

lemma mat1_resid:
  "neumann_resid (mat1 1) [Fin 3] [Fin 0] = [Fin (- 3)]"
  "neumann_resid (mat1 1) [Fin 3] [Fin 3] = [Fin 0]"
  "neumann_resid (mat1 2) [Fin 3] [Fin 0] = [Fin (- 3)]"
  "neumann_resid (mat1 2) [Fin 3] [Fin 3] = [Fin 3]"
  by (simp_all add: neumann_resid_def Mult_def row_dot_def mat1_def vsub_def)

lemma mat1_done:
  "\<not> neumann_done (mat1 1) [Fin 3] [Fin 0]"
  "neumann_done (mat1 1) [Fin 3] [Fin 3]"
  "\<not> neumann_done (mat1 2) [Fin 3] [Fin 0]"
  "\<not> neumann_done (mat1 2) [Fin 3] [Fin 3]"
  by (simp_all add: neumann_done_def mat1_resid Norml2_def sqrt_nine abs_tol_def)

lemma mat1_update:
  "neumann_update (mat1 1) [Fin 1] [Fin 3] [Fin 0] = [Fin 3]"
  "neumann_update (mat1 2) [Fin 1] [Fin 3] [Fin 0] = [Fin 3]"
  "neumann_update (mat1 2) [Fin 1] [Fin 3] [Fin 3] = [Fin 0]"
  by (simp_all add: neumann_update_def mat1_resid)

theorem NeumannSolve_iterations_witness:
  "NeumannSolve (mat1 1) [Fin 1] [Fin 3] [Fin 7] = [Fin 3]
   \<and> NeumannSolve (mat1 2) [Fin 1] [Fin 3] [Fin 7] = [Fin 0]"
proof
  let ?U = "neumann_update (mat1 1) [Fin 1] [Fin 3]"
  from NeumannSolve_iterations[of "mat1 1" "[Fin 1]" "[Fin 3]" "[Fin 7]"]
  obtain n where n: "n \<le> 20" "NeumannSolve (mat1 1) [Fin 1] [Fin 3] [Fin 7] = (?U ^^ n) [Fin 0]"
    "\<forall>i<n. \<not> neumann_done (mat1 1) [Fin 3] ((?U ^^ i) [Fin 0])"
    "n < 20 \<longrightarrow> neumann_done (mat1 1) [Fin 3] ((?U ^^ n) [Fin 0])"
    by auto
  have d0: "\<not> neumann_done (mat1 1) [Fin 3] [Fin 0]"
    by (rule mat1_done)
  have d1: "neumann_done (mat1 1) [Fin 3] (?U [Fin 0])"
    by (simp add: mat1_update mat1_done)
  have "n \<noteq> 0"
  proof
    assume "n = 0"
    then show False using n(4) d0 by simp
  qed
  moreover have "\<not> 1 < n"
  proof
    assume "1 < n"
    then have "\<not> neumann_done (mat1 1) [Fin 3] ((?U ^^ 1) [Fin 0])" using n(3) by blast
    then show False using d1 by simp
  qed
  ultimately have "n = 1" by simp
  then show "NeumannSolve (mat1 1) [Fin 1] [Fin 3] [Fin 7] = [Fin 3]"
    using n(2) by (simp add: mat1_update)
next
  let ?U = "neumann_update (mat1 2) [Fin 1] [Fin 3]"
  from NeumannSolve_iterations[of "mat1 2" "[Fin 1]" "[Fin 3]" "[Fin 7]"]
  obtain n where n: "n \<le> 20" "NeumannSolve (mat1 2) [Fin 1] [Fin 3] [Fin 7] = (?U ^^ n) [Fin 0]"
    "n < 20 \<longrightarrow> neumann_done (mat1 2) [Fin 3] ((?U ^^ n) [Fin 0])"
    by auto
  have U: "?U [Fin 0] = [Fin 3]" "?U [Fin 3] = [Fin 0]"
    by (simp_all add: mat1_update)
  have it: "(?U ^^ i) [Fin 0] = (if even i then [Fin 0] else [Fin 3])" for i
    by (induction i) (simp_all add: U)
  have "\<not> neumann_done (mat1 2) [Fin 3] ((?U ^^ i) [Fin 0])" for i
    by (simp add: it mat1_done)
  then have "n = 20" using n(1,3) by auto
  then show "NeumannSolve (mat1 2) [Fin 1] [Fin 3] [Fin 7] = [Fin 0]"
    using n(2) by (simp add: it)
qed

subsection \<open>The flux stencil is not negative\<close>

lemma flux_vn_finite:
  assumes "finite_d d \<or> d = NaN"
  shows "finite_d (flux_vn exec_mode d) \<and> val (flux_vn exec_mode d) \<le> 0"
proof (cases d)
  case (Fin a)
  have "rnd (max 0 a * - 1) \<le> 0" by (intro rnd_nonpos) simp
  then show ?thesis
    by (auto simp: Fin flux_vn_def std_min_def std_max_def max_def split: if_splits)
next
  case NaN
  then show ?thesis by (simp add: flux_vn_def std_min_def std_max_def)
qed (use assms in auto)

lemma finite_list: "list_all finite_d v \<Longrightarrow> \<exists>rs. v = map Fin rs"
proof (induction v)
  case Nil
  then show ?case by simp
next
  case (Cons a v)
  then obtain rs where "v = map Fin rs" by auto
  moreover obtain r where "a = Fin r" using Cons.prems by (cases a) auto
  ultimately have "a # v = map Fin (r # rs)" by simp
  then show ?case by (rule exI)
qed

text \<open>The rounded sum of the squares is zero only when every entry is.\<close>

lemma sumsq_fold:
  "0 \<le> s0 \<Longrightarrow>
   \<exists>s. fold (\<lambda>a s. dadd s (dmul a a)) (map Fin rs) (Fin s0) = Fin s \<and> 0 \<le> s
       \<and> (s = 0 \<longrightarrow> s0 = 0 \<and> (\<forall>r\<in>set rs. r = 0))"
proof (induction rs arbitrary: s0)
  case Nil
  then show ?case by simp
next
  case (Cons r rs)
  let ?s1 = "rnd (s0 + rnd (r * r))"
  have sq: "0 \<le> rnd (r * r)" by (intro rnd_nonneg) simp
  then have s1: "0 \<le> ?s1" using Cons.prems by (intro rnd_nonneg) simp
  from Cons.IH[OF s1] obtain s where
    s: "fold (\<lambda>a s. dadd s (dmul a a)) (map Fin rs) (Fin ?s1) = Fin s" "0 \<le> s"
       "s = 0 \<longrightarrow> ?s1 = 0 \<and> (\<forall>r\<in>set rs. r = 0)"
    by blast
  have "s0 = 0 \<and> r = 0" if "?s1 = 0"
  proof -
    from that have "s0 + rnd (r * r) = 0" by simp
    then have "s0 = 0" "rnd (r * r) = 0" using sq Cons.prems by linarith+
    then show ?thesis by simp
  qed
  then have "s = 0 \<longrightarrow> s0 = 0 \<and> (\<forall>r'\<in>set (r # rs). r' = 0)" using s(3) by auto
  moreover have "fold (\<lambda>a s. dadd s (dmul a a)) (map Fin (r # rs)) (Fin s0) = Fin s"
    using s(1) by simp
  ultimately show ?case using s(2) by blast
qed

lemma Norml2_Fin:
  "\<exists>n. Norml2 (map Fin rs) = Fin n \<and> 0 \<le> n \<and> (n = 0 \<longrightarrow> (\<forall>r\<in>set rs. r = 0))"
proof -
  from sumsq_fold[of 0 rs] obtain s where
    s: "fold (\<lambda>a s. dadd s (dmul a a)) (map Fin rs) (Fin 0) = Fin s" "0 \<le> s"
       "s = 0 \<longrightarrow> (\<forall>r\<in>set rs. r = 0)"
    by auto
  have "Norml2 (map Fin rs) = Fin (rnd (sqrt s))"
    using s(2) by (simp add: Norml2_def s(1))
  moreover have "0 \<le> rnd (sqrt s)" using s(2) by (intro rnd_nonneg) simp
  moreover have "rnd (sqrt s) = 0 \<longrightarrow> (\<forall>r\<in>set rs. r = 0)" using s(3) by simp
  ultimately show ?thesis by blast
qed

lemma dot_Fin:
  "\<exists>d. fold (\<lambda>(a, b) s. dadd s (dmul a b)) (zip (map Fin vs) (map Fin ws)) (Fin s0) = Fin d"
  by (induction vs ws arbitrary: s0 rule: list_induct2') simp_all

lemma dot_NaN_acc:
  "fold (\<lambda>(a, b) s. dadd s (dmul a b)) zs NaN = NaN"
  by (induction zs) (auto)

lemma dot_NaN:
  "fold (\<lambda>(a, b) s. dadd s (dmul a b)) (zip vs (replicate n NaN)) s \<in> {s, NaN}"
proof (cases "zip vs (replicate n NaN)")
  case Nil
  then show ?thesis by (simp only: fold.simps id_apply insertI1)
next
  case (Cons z zs)
  then have "snd z = NaN"
    by (metis in_set_zipE list.set_intros(1) in_set_replicate prod.collapse)
  then have "(case z of (a, b) \<Rightarrow> \<lambda>s. dadd s (dmul a b)) s = NaN"
    by (cases z; cases "fst z"; cases s) auto
  then show ?thesis using Cons by (simp add: dot_NaN_acc)
qed

lemma unit_normal_dot:
  assumes "list_all finite_d v" "list_all finite_d nor"
  shows "finite_d (dot v (map (\<lambda>a. dmul a (ddiv (Fin 1) (Norml2 nor))) nor))
       \<or> dot v (map (\<lambda>a. dmul a (ddiv (Fin 1) (Norml2 nor))) nor) = NaN"
proof -
  obtain vs ns where v: "v = map Fin vs" and n: "nor = map Fin ns"
    using assms finite_list by blast
  obtain N where N: "Norml2 nor = Fin N" "0 \<le> N" "N = 0 \<longrightarrow> (\<forall>r\<in>set ns. r = 0)"
    using Norml2_Fin[of ns] unfolding n by blast
  show ?thesis
  proof (cases "N = 0")
    case False
    then have "map (\<lambda>a. dmul a (ddiv (Fin 1) (Norml2 nor))) nor
                 = map Fin (map (\<lambda>r. rnd (r * rnd (1 / N))) ns)"
      unfolding N(1) by (simp add: n)
    then obtain d where "dot v (map (\<lambda>a. dmul a (ddiv (Fin 1) (Norml2 nor))) nor) = Fin d"
      unfolding dot_def v using dot_Fin[of vs "map (\<lambda>r. rnd (r * rnd (1 / N))) ns" 0]
      by auto
    then show ?thesis by simp
  next
    case True
    then have z: "\<forall>r\<in>set ns. r = 0" using N(3) by simp
    have "map (\<lambda>a. dmul a (ddiv (Fin 1) (Norml2 nor))) nor = replicate (length ns) NaN"
      unfolding N(1) using z True by (simp add: n map_replicate_const[symmetric])
    then show ?thesis
      using dot_NaN[of v "length ns" "Fin 0"] by (auto simp: dot_def)
  qed
qed

lemma fold_invariant:
  "P s \<Longrightarrow> (\<And>x s. x \<in> set xs \<Longrightarrow> P s \<Longrightarrow> P (f x s)) \<Longrightarrow> P (fold f xs s)"
  by (induction xs arbitrary: s) simp_all

lemma flux_normal_dot:
  assumes "qpoint_ok fe BdrID q"
  shows "finite_d (dot (vval q) (flux_normal dimn Elem1No k q))
       \<or> dot (vval q) (flux_normal dimn Elem1No k q) = NaN"
proof -
  from assms obtain e where e: "eip1_x q = Fin e" and o: "list_all finite_d (ortho q)"
    and v: "list_all finite_d (vval q)"
    unfolding qpoint_ok_def by (metis finite_d_val)
  obtain os where os: "ortho q = map Fin os" using o finite_list by blast
  let ?nor = "if dimn = 1 then [dsub (dmul (Fin 2) (eip1_x q)) (Fin 1)] else ortho q"
  let ?nor' = "if Elem1No \<noteq> int k then map (\<lambda>a. dmul a (Fin (- 1))) ?nor else ?nor"
  have "list_all finite_d ?nor'"
    by (simp add: e os list_all_iff)
  from unit_normal_dot[OF v this] show ?thesis
    unfolding flux_normal_def Let_def .
qed

lemma nonneg_tensor_upd:
  assumes "nonneg_tensor T" "a \<le> 0" "0 \<le> s"
  shows "nonneg_tensor (T(idx := dsub (T idx) (dmul (Fin a) (Fin s))))"
proof -
  obtain t where t: "T idx = Fin t" "0 \<le> t"
    using assms(1) unfolding nonneg_tensor_def by (metis finite_d_val val.simps(1))
  have "a * s \<le> 0" using assms(2,3) by (simp add: mult_nonpos_nonneg)
  then have "rnd (a * s) \<le> 0" by (rule rnd_nonpos)
  then have "0 \<le> rnd (t - rnd (a * s))" using t(2) by (intro rnd_nonneg) simp
  then show ?thesis
    using assms(1) by (simp add: nonneg_tensor_def t(1))
qed

lemma flux_point_nonneg:
  assumes ok: "qpoint_ok fe BdrID q" and T: "nonneg_tensor bdrInt"
  shows "nonneg_tensor (flux_point exec_mode dimn fe k BdrID Elem1No q bdrInt)"
proof -
  let ?vn = "flux_vn exec_mode (dot (vval q) (flux_normal dimn Elem1No k q))"
  obtain v where v: "?vn = Fin v" "v \<le> 0"
    using flux_vn_finite[OF flux_normal_dot[OF ok], of exec_mode dimn Elem1No k]
    by (metis finite_d_val val.simps(1))
  from ok obtain w fw where w: "ip_weight q = Fin w" "0 \<le> w"
    and fw: "face_weight q = Fin fw" "0 \<le> fw"
    unfolding qpoint_ok_def by (metis finite_d_val val.simps(1))
  have sh: "\<exists>s. shape q ! BdrDofs fe i BdrID = Fin s \<and> 0 \<le> s" if "i < numDofs fe" for i
    using ok that unfolding qpoint_ok_def by (metis finite_d_val val.simps(1))
  have wf: "0 \<le> rnd (w * fw)" using w(2) fw(2) by (intro rnd_nonneg) simp
  show ?thesis
    unfolding flux_point_def Let_def
  proof (rule fold_invariant[where P = nonneg_tensor, OF T])
    fix i T' assume i: "i \<in> set [0..<numDofs fe]" and T': "nonneg_tensor T'"
    obtain si where si: "shape q ! BdrDofs fe i BdrID = Fin si" "0 \<le> si"
      using sh[of i] i by auto
    have "0 \<le> rnd (rnd (w * fw) * si)" using wf si(2) by (intro rnd_nonneg) simp
    then have "rnd (rnd (w * fw) * si) * v \<le> 0" using v(2) by (rule mult_nonneg_nonpos)
    then have neg: "rnd (rnd (rnd (w * fw) * si) * v) \<le> 0" by (rule rnd_nonpos)
    have aux: "dmul (dmul (dmul (ip_weight q) (face_weight q)) (shape q ! BdrDofs fe i BdrID)) ?vn
                 = Fin (rnd (rnd (rnd (w * fw) * si) * v))"
      by (simp add: w(1) fw(1) si(1) v(1))
    show "nonneg_tensor
            (fold (\<lambda>j bdrInt. bdrInt((k, BdrID, i * numDofs fe + j) :=
                     dsub (bdrInt (k, BdrID, i * numDofs fe + j))
                       (dmul (dmul (dmul (dmul (ip_weight q) (face_weight q))
                                     (shape q ! BdrDofs fe i BdrID)) ?vn)
                             (shape q ! BdrDofs fe j BdrID))))
               [0..<numDofs fe] T')"
    proof (rule fold_invariant[where P = nonneg_tensor, OF T'])
      fix j T'' assume j: "j \<in> set [0..<numDofs fe]" and T'': "nonneg_tensor T''"
      obtain sj where sj: "shape q ! BdrDofs fe j BdrID = Fin sj" "0 \<le> sj"
        using sh[of j] j by auto
      show "nonneg_tensor (T''((k, BdrID, i * numDofs fe + j) :=
                     dsub (T'' (k, BdrID, i * numDofs fe + j))
                       (dmul (dmul (dmul (dmul (ip_weight q) (face_weight q))
                                     (shape q ! BdrDofs fe i BdrID)) ?vn)
                             (shape q ! BdrDofs fe j BdrID))))"
        unfolding aux sj(1) by (rule nonneg_tensor_upd[OF T'' neg sj(2)])
    qed
  qed
qed

lemma flux_loops_nonneg:
  assumes "\<forall>k<GetNE m. \<forall>i<numBdrs fe. \<forall>q\<in>set (qp k i). qpoint_ok fe i q"
      and "nonneg_tensor bdrInt"
  shows "nonneg_tensor (flux_loops exec_mode m fe qp bdrInt)"
  unfolding flux_loops_def ComputeFluxTerms_def
  using assms
  by (intro fold_invariant[where P = nonneg_tensor] flux_point_nonneg) auto

text \<open>
  Claim C10. When the quadrature weights, the face weights and the shape values at
  the boundary dofs are not negative (and the data of the quadrature points are
  finite), every entry of \<^verbatim>\<open>bdrInt\<close> is a finite number \<open>\<ge> 0\<close> after the constructor of
  \<^verbatim>\<open>Assembly\<close> and after each reassembly in \<^verbatim>\<open>Mult\<close>, in transport and in remap mode.
\<close>

theorem bdrInt_nonneg:
  assumes "\<forall>k<GetNE m. \<forall>i<numBdrs fe. \<forall>q\<in>set (qp k i). qpoint_ok fe i q"
  shows "nonneg_tensor (Assembly_bdrInt True exec_mode m fe qp bdrInt0)
       \<and> (\<forall>T. nonneg_tensor T \<longrightarrow> nonneg_tensor (Mult_bdrInt True exec_mode m fe qp T))"
proof -
  have z: "nonneg_tensor (\<lambda>idx. Fin 0)" by (simp add: nonneg_tensor_def)
  have a: "nonneg_tensor (Assembly_bdrInt True exec_mode m fe qp bdrInt0)"
    using flux_loops_nonneg[OF assms z] z by (simp add: Assembly_bdrInt_def Let_def)
  then show ?thesis
    using flux_loops_nonneg[OF assms z] by (simp add: Mult_bdrInt_def)
qed

lemma seg2_qp_ok: "\<forall>k<GetNE seg2. \<forall>i<numBdrs seg_p1. \<forall>q\<in>set (seg2_qp k i). qpoint_ok seg_p1 i q"
  by (simp add: qpoint_ok_def seg2_qp_def seg_p1_def seg2_def)

lemma seg2_bdrInt:
  "Assembly_bdrInt True 0 seg2 seg_p1 seg2_qp T0 =
     (\<lambda>idx. if idx = (0, 0, 0) \<or> idx = (1, 0, 0) then Fin 1 else Fin 0)"
  by (auto simp: Assembly_bdrInt_def flux_loops_def ComputeFluxTerms_def flux_point_def
        flux_normal_def flux_vn_def dot_def Norml2_def std_min_def seg2_def seg_p1_def
        seg2_qp_def upt_rec Let_def fun_eq_iff)

theorem bdrInt_nonneg_witness:
  "Assembly_bdrInt True 0 seg2 seg_p1 seg2_qp (\<lambda>idx. NaN) (0, 0, 0) = Fin 1
   \<and> Assembly_bdrInt True 0 seg2 seg_p1 seg2_qp (\<lambda>idx. NaN) (0, 1, 0) = Fin 0
   \<and> nonneg_tensor (Assembly_bdrInt True 0 seg2 seg_p1 seg2_qp (\<lambda>idx. NaN))
   \<and> nonneg_tensor (Mult_bdrInt True 0 seg2 seg_p1 seg2_qp
                      (Assembly_bdrInt True 0 seg2 seg_p1 seg2_qp (\<lambda>idx. NaN)))"
  using bdrInt_nonneg[OF seg2_qp_ok, of 0 "\<lambda>idx. NaN"]
  by (simp add: seg2_bdrInt)

subsection \<open>The discrete upwinding matrix\<close>









text \<open>The diffusion is not negative, and an entry with its diffusion added is never
  negative: it is a number \<open>\<ge> 0\<close>, \<open>+\<infinity>\<close>, or NaN.\<close>

lemma fmax_nonneg: "dle (Fin 0) (fmax (fmax (Fin 0) a) b)"
  by (cases a; cases b) (auto simp: fmax_def)
















subsection \<open>The denominators of the residual distribution branch\<close>















end
